theory Spec2Isabelle
  imports Complex_Main "HOL-Library.List_Lexorder" "HOL-Library.Char_ord"
begin

section \<open>Python values used by \<^verbatim>\<open>DataManager.py\<close>\<close>

text \<open>
  A Python \<^verbatim>\<open>str\<close> is modelled as a \<^typ>\<open>string\<close>: a list of characters, each standing
  for one code point below 256.  The order on strings is the lexicographic order of
  the code points (\<^verbatim>\<open>List_Lexorder\<close> over \<^verbatim>\<open>Char_ord\<close>), which is how Python compares
  two \<^verbatim>\<open>str\<close> values.  An exception is a value of \<open>py_error\<close>; a computation that may
  raise returns \<open>py_error + 'a\<close>, with \<open>Inl\<close> for the exception.
\<close>

datatype py_error =
    ValueError
  | IndexError
  | UnboundLocalError
  | StopIteration
  | OverflowError

definition LF :: char where
  "LF = CHR 0x0A"

definition CR :: char where
  "CR = CHR 0x0D"

text \<open>\<^verbatim>\<open>str.isspace\<close> on the code points below 256: tab to carriage return, the four
  separators 0x1C to 0x1F, the space, NEL (0x85) and the no-break space (0xA0).\<close>

definition isspace :: "char \<Rightarrow> bool" where
  "isspace c =
     (let n = (of_char c :: nat)
      in (9 \<le> n \<and> n \<le> 13) \<or> (28 \<le> n \<and> n \<le> 32) \<or> n = 133 \<or> n = 160)"

text \<open>\<^verbatim>\<open>s.strip()\<close>: leading and trailing whitespace removed.\<close>

definition strip :: "string \<Rightarrow> string" where
  "strip s = rev (dropWhile isspace (rev (dropWhile isspace s)))"

text \<open>\<^verbatim>\<open>s.split(sep)\<close> for a one-character separator: never empty, \<^verbatim>\<open>''.split(',')\<close> is
  \<^verbatim>\<open>['']\<close>.  A character other than the separator goes in front of the first part of
  the rest; the rest always has a first part, so the \<open>[]\<close> case is never taken.\<close>

fun str_split :: "char \<Rightarrow> string \<Rightarrow> string list" where
  "str_split sep [] = [[]]"
| "str_split sep (c # s) =
     (if c = sep then [] # str_split sep s
      else (case str_split sep s of
              [] \<Rightarrow> [[c]]
            | part # parts \<Rightarrow> (c # part) # parts))"

text \<open>\<^verbatim>\<open>sep.join(xs)\<close>.\<close>

fun join :: "string \<Rightarrow> string list \<Rightarrow> string" where
  "join sep [] = []"
| "join sep [x] = x"
| "join sep (x # y # ys) = x @ sep @ join sep (y # ys)"

text \<open>\<^verbatim>\<open>s.upper()\<close> on ASCII letters; every other character is left as it is (for some
  code points above 127 Python's result leaves the range modelled here).\<close>

definition upper_char :: "char \<Rightarrow> char" where
  "upper_char c =
     (case map_of (zip ''abcdefghijklmnopqrstuvwxyz'' ''ABCDEFGHIJKLMNOPQRSTUVWXYZ'') c of
        Some u \<Rightarrow> u
      | None \<Rightarrow> c)"

definition upper :: "string \<Rightarrow> string" where
  "upper s = map upper_char s"

text \<open>\<^verbatim>\<open>xs[0]\<close> and \<^verbatim>\<open>xs[-1]\<close> raise \<^verbatim>\<open>IndexError\<close> on an empty list, \<^verbatim>\<open>xs[i]\<close> when
  \<open>i\<close> is out of range.\<close>

definition item :: "'a list \<Rightarrow> nat \<Rightarrow> py_error + 'a" where
  "item xs i = (if i < length xs then Inr (xs ! i) else Inl IndexError)"

definition last_item :: "'a list \<Rightarrow> py_error + 'a" where
  "last_item xs = (if xs = [] then Inl IndexError else Inr (last xs))"

text \<open>Sequencing: an exception in the first computation skips the second.\<close>

definition raise_bind :: "py_error + 'a \<Rightarrow> ('a \<Rightarrow> py_error + 'b) \<Rightarrow> py_error + 'b" where
  "raise_bind m f = (case m of Inl e \<Rightarrow> Inl e | Inr x \<Rightarrow> f x)"

section \<open>The files on disk\<close>

text \<open>
  The file system is a map from file names to file contents.  Opening a file for
  writing or appending creates it; permission and device errors are outside the
  model, and so is the directory structure (the data directory is created by the
  constructor).
\<close>

type_synonym filesystem = "string \<rightharpoonup> string"

record DataManager =
  data_location :: string

datatype open_mode = ModeA | ModeW

text \<open>Reading a text file translates \<^verbatim>\<open>\r\n\<close> and \<^verbatim>\<open>\r\<close> to \<^verbatim>\<open>\n\<close> (universal newlines);
  iterating over the file yields the lines with their terminating \<^verbatim>\<open>\n\<close>, and a last
  line without one when the text does not end in \<^verbatim>\<open>\n\<close>.\<close>

fun universal_newlines :: "string \<Rightarrow> string" where
  "universal_newlines [] = []"
| "universal_newlines [c] = [if c = CR then LF else c]"
| "universal_newlines (c # d # s) =
     (if c = CR \<and> d = LF then LF # universal_newlines s
      else if c = CR then LF # universal_newlines (d # s)
      else c # universal_newlines (d # s))"

fun lines_from :: "string \<Rightarrow> string \<Rightarrow> string list" where
  "lines_from acc [] = (if acc = [] then [] else [acc])"
| "lines_from acc (c # s) =
     (if c = LF then (acc @ [c]) # lines_from [] s else lines_from (acc @ [c]) s)"

definition file_lines :: "string \<Rightarrow> string list" where
  "file_lines content = lines_from [] (universal_newlines content)"

definition filename_for :: "DataManager \<Rightarrow> string \<Rightarrow> string" where
  "filename_for dm ticker = data_location dm @ upper ticker @ ''.csv''"

definition has_file :: "filesystem \<Rightarrow> string \<Rightarrow> bool" where
  "has_file fs filename = (fs filename \<noteq> None)"

definition has_file_for :: "DataManager \<Rightarrow> filesystem \<Rightarrow> string \<Rightarrow> bool" where
  "has_file_for dm fs ticker = has_file fs (filename_for dm ticker)"

definition remove_file_for :: "DataManager \<Rightarrow> filesystem \<Rightarrow> string \<Rightarrow> filesystem" where
  "remove_file_for dm fs ticker = fs(filename_for dm ticker := None)"

definition readlines :: "filesystem \<Rightarrow> string \<Rightarrow> string list" where
  "readlines fs filename =
     (case fs filename of
        None \<Rightarrow> []
      | Some content \<Rightarrow> map strip (file_lines content))"

definition readlines_for :: "DataManager \<Rightarrow> filesystem \<Rightarrow> string \<Rightarrow> string list" where
  "readlines_for dm fs ticker =
     (case fs (filename_for dm ticker) of
        None \<Rightarrow> []
      | Some content \<Rightarrow> map strip (file_lines content))"

text \<open>\<^verbatim>\<open>_write_data_to_csv_file\<close>: mode \<^verbatim>\<open>'w'\<close> truncates, mode \<^verbatim>\<open>'a'\<close> keeps what is
  there; each row is written as its fields joined by commas and a newline.\<close>

definition csv_line :: "string list \<Rightarrow> string" where
  "csv_line line = join '','' line @ [LF]"

definition write_data_to_csv_file ::
  "filesystem \<Rightarrow> string \<Rightarrow> string list list \<Rightarrow> open_mode \<Rightarrow> filesystem" where
  "write_data_to_csv_file fs filename data mode =
     (let opened =
        (case mode of
           ModeW \<Rightarrow> []
         | ModeA \<Rightarrow> (case fs filename of None \<Rightarrow> [] | Some content \<Rightarrow> content))
      in fs(filename \<mapsto> foldl (\<lambda>text line. text @ csv_line line) opened data))"

text \<open>\<^verbatim>\<open>_read_csv_file_rows_for\<close>: the loop appends one row per line.\<close>

definition read_csv_file_rows_for ::
  "DataManager \<Rightarrow> filesystem \<Rightarrow> string \<Rightarrow> string list list" where
  "read_csv_file_rows_for dm fs ticker =
     foldl (\<lambda>data line. data @ [map strip (str_split (CHR '','') line)])
       [] (readlines_for dm fs ticker)"

text \<open>\<^verbatim>\<open>_read_csv_file_columns_for\<close>: six columns; a line with fewer than six values
  raises \<^verbatim>\<open>IndexError\<close> at the first missing one.\<close>

fun columns_loop :: "string list list \<Rightarrow> string list \<Rightarrow> py_error + string list list" where
  "columns_loop data [] = Inr data"
| "columns_loop data (line # rest) =
     (let values = str_split (CHR '','') line
      in if length values < 6 then Inl IndexError
         else columns_loop (map (\<lambda>i. data ! i @ [strip (values ! i)]) [0..<6]) rest)"

definition read_csv_file_columns_for ::
  "DataManager \<Rightarrow> filesystem \<Rightarrow> string \<Rightarrow> py_error + string list list" where
  "read_csv_file_columns_for dm fs ticker =
     columns_loop (replicate 6 []) (readlines_for dm fs ticker)"

definition read_stock_data ::
  "DataManager \<Rightarrow> filesystem \<Rightarrow> string \<Rightarrow> string \<Rightarrow> py_error + string list list" where
  "read_stock_data dm fs ticker format =
     (if format = ''column'' then read_csv_file_columns_for dm fs ticker
      else if format = ''row'' then Inr (read_csv_file_rows_for dm fs ticker)
      else Inr [])"

text \<open>\<^verbatim>\<open>next(i for i, _ in enumerate(data) if _[0] == date)\<close>: the first index whose row
  starts with \<open>date\<close>; \<^verbatim>\<open>StopIteration\<close> when the generator is exhausted.\<close>

fun next_index :: "string \<Rightarrow> nat \<Rightarrow> string list list \<Rightarrow> py_error + nat" where
  "next_index date i [] = Inl StopIteration"
| "next_index date i (row # rest) =
     (case item row 0 of
        Inl e \<Rightarrow> Inl e
      | Inr d \<Rightarrow> if d = date then Inr i else next_index date (Suc i) rest)"

text \<open>The \<^verbatim>\<open>append\<close> branch of \<^verbatim>\<open>write_stock_data\<close> (lines 57 to 64): the rows to write,
  given the rows already stored.  Python's \<^verbatim>\<open>and\<close> evaluates its second operand only
  when the first is true.\<close>

definition rows_to_append ::
  "string list list \<Rightarrow> string list list \<Rightarrow> py_error + string list list" where
  "rows_to_append existing_data data =
     (if length existing_data = 0 then Inr data
      else
        raise_bind (last_item existing_data) (\<lambda>existing_last.
        raise_bind (item existing_last 0) (\<lambda>last_date.
        raise_bind (last_item data) (\<lambda>data_last.
        raise_bind (item data_last 0) (\<lambda>data_last_date.
        if last_date < data_last_date then
          raise_bind (item data 0) (\<lambda>data_first.
          raise_bind (item data_first 0) (\<lambda>data_first_date.
          if last_date > data_first_date then
            raise_bind (next_index last_date 0 data) (\<lambda>index_of_last.
            Inr (drop (index_of_last + 1) data))
          else Inr []))
        else Inr [])))))"

text \<open>\<^verbatim>\<open>write_stock_data\<close> returns the outcome (\<open>Inr ()\<close> for a normal return) and the
  file system it leaves behind; an exception leaves the files as they were, since
  nothing is written before the rows to write are known.\<close>

definition write_stock_data ::
  "DataManager \<Rightarrow> filesystem \<Rightarrow> string \<Rightarrow> string list list \<Rightarrow> bool
     \<Rightarrow> (py_error + unit) \<times> filesystem" where
  "write_stock_data dm fs ticker data do_append =
     (if do_append then
        case read_stock_data dm fs ticker ''row'' of
          Inl e \<Rightarrow> (Inl e, fs)
        | Inr existing_data \<Rightarrow>
            (case rows_to_append existing_data data of
               Inl e \<Rightarrow> (Inl e, fs)
             | Inr data_to_write \<Rightarrow>
                 (Inr (), write_data_to_csv_file fs (filename_for dm ticker) data_to_write ModeA))
      else
        let fs' = (if has_file_for dm fs ticker then remove_file_for dm fs ticker else fs)
        in (Inr (), write_data_to_csv_file fs' (filename_for dm ticker) data ModeW))"

section \<open>Calendar dates\<close>

text \<open>
  The \<^verbatim>\<open>datetime\<close> values of \<^verbatim>\<open>build_price_lut\<close> come from \<^verbatim>\<open>strptime\<close> with the format
  \<^verbatim>\<open>%Y-%m-%d\<close>, so their time of day is midnight: a value is its year, month and day in
  the proleptic Gregorian calendar, years 1 to 9999.  The comparison \<^verbatim>\<open><\<close> is the
  order of the calendar, and adding \<^verbatim>\<open>timedelta(1)\<close> gives the next day, or
  \<^verbatim>\<open>OverflowError\<close> after the last day of year 9999.
\<close>

record datetime =
  year :: nat
  month :: nat
  day :: nat

definition is_leap :: "nat \<Rightarrow> bool" where
  "is_leap y = (y mod 4 = 0 \<and> (y mod 100 \<noteq> 0 \<or> y mod 400 = 0))"

definition days_in_month :: "nat \<Rightarrow> nat \<Rightarrow> nat" where
  "days_in_month y m =
     (if m = 2 then (if is_leap y then 29 else 28)
      else if m = 4 \<or> m = 6 \<or> m = 9 \<or> m = 11 then 30
      else 31)"

definition valid_date :: "datetime \<Rightarrow> bool" where
  "valid_date dt =
     (1 \<le> year dt \<and> year dt \<le> 9999 \<and> 1 \<le> month dt \<and> month dt \<le> 12 \<and>
      1 \<le> day dt \<and> day dt \<le> days_in_month (year dt) (month dt))"

definition date_less :: "datetime \<Rightarrow> datetime \<Rightarrow> bool" where
  "date_less a b =
     (year a < year b \<or>
      (year a = year b \<and> (month a < month b \<or> (month a = month b \<and> day a < day b))))"

definition add_day :: "datetime \<Rightarrow> py_error + datetime" where
  "add_day dt =
     (if day dt < days_in_month (year dt) (month dt) then Inr (dt\<lparr>day := day dt + 1\<rparr>)
      else if month dt < 12 then Inr (dt\<lparr>month := month dt + 1, day := 1\<rparr>)
      else if year dt < 9999 then Inr \<lparr>year = year dt + 1, month = 1, day = 1\<rparr>
      else Inl OverflowError)"

text \<open>Decimal digits.\<close>

definition is_digit :: "char \<Rightarrow> bool" where
  "is_digit c = (48 \<le> (of_char c :: nat) \<and> (of_char c :: nat) \<le> 57)"

definition int_of_digits :: "string \<Rightarrow> nat" where
  "int_of_digits s = foldl (\<lambda>n c. 10 * n + (of_char c - 48)) 0 s"

definition digit_char :: "nat \<Rightarrow> char" where
  "digit_char n = ''0123456789'' ! (n mod 10)"

text \<open>
  \<^verbatim>\<open>strptime(s, '%Y-%m-%d')\<close>: the year is four digits; the month is one or two digits
  with a value from 1 to 12; the day is one or two digits with a value from 1 to 31,
  or a space and a digit from 1 to 9; nothing else may stand in the text.  The date
  must exist: a year 0 or a day beyond the end of the month is a \<^verbatim>\<open>ValueError\<close>.
\<close>

definition month_text :: "string \<Rightarrow> bool" where
  "month_text s =
     ((length s = 1 \<or> length s = 2) \<and> list_all is_digit s \<and>
      1 \<le> int_of_digits s \<and> int_of_digits s \<le> 12)"

definition day_text :: "string \<Rightarrow> bool" where
  "day_text s =
     (((length s = 1 \<or> length s = 2) \<and> list_all is_digit s \<and>
       1 \<le> int_of_digits s \<and> int_of_digits s \<le> 31) \<or>
      (length s = 2 \<and> hd s = CHR '' '' \<and> is_digit (last s) \<and> last s \<noteq> CHR ''0''))"

definition strptime :: "string \<Rightarrow> py_error + datetime" where
  "strptime s =
     (case str_split (CHR ''-'') s of
        [ys, ms, ds] \<Rightarrow>
          if length ys = 4 \<and> list_all is_digit ys \<and> month_text ms \<and> day_text ds then
            (let y = int_of_digits ys;
                 m = int_of_digits ms;
                 d = int_of_digits (dropWhile (\<lambda>c. c = CHR '' '') ds)
             in if 1 \<le> y \<and> d \<le> days_in_month y m
                then Inr \<lparr>year = y, month = m, day = d\<rparr>
                else Inl ValueError)
          else Inl ValueError
      | _ \<Rightarrow> Inl ValueError)"

text \<open>\<^verbatim>\<open>strftime('%Y-%m-%d')\<close>: four digits, two digits, two digits, as the Python
  documentation has it (a year below 1000 is written with leading zeros).\<close>

definition strftime :: "datetime \<Rightarrow> string" where
  "strftime dt =
     [digit_char (year dt div 1000), digit_char (year dt div 100),
      digit_char (year dt div 10), digit_char (year dt)] @ ''-'' @
     [digit_char (month dt div 10), digit_char (month dt)] @ ''-'' @
     [digit_char (day dt div 10), digit_char (day dt)]"

section \<open>The price lookup table\<close>

text \<open>
  \<^verbatim>\<open>float(text)\<close> is a parameter of the model, \<open>pyfloat\<close>: it returns the number parsed
  from the text, or \<open>None\<close> where Python raises \<^verbatim>\<open>ValueError\<close>.  The table is a dictionary
  from date texts to numbers.
\<close>

type_synonym 'f price_lookup = "string \<rightharpoonup> 'f"

definition close_price :: "(string \<Rightarrow> 'f option) \<Rightarrow> string list \<Rightarrow> py_error + 'f" where
  "close_price pyfloat line_data =
     (case item line_data 4 of
        Inl e \<Rightarrow> Inl e
      | Inr text \<Rightarrow> (case pyfloat text of None \<Rightarrow> Inl ValueError | Some price \<Rightarrow> Inr price))"

text \<open>
  The \<^verbatim>\<open>while curr_date < next_date\<close> loop of lines 121 to 127.  It ends for all
  arguments: \<open>fill_steps\<close> bounds the iterations that are left, through a rank that
  every added day increases and that stays below the rank of the year after
  \<open>next_date\<close> as long as the loop runs.
\<close>

definition day_rank :: "datetime \<Rightarrow> nat" where
  "day_rank dt = year dt * 384 + min (month dt) 12 * 32 + min (day dt) 31"

definition fill_steps :: "datetime \<Rightarrow> datetime \<Rightarrow> nat" where
  "fill_steps curr_date next_date =
     (if date_less curr_date next_date
      then 1 + ((year next_date + 1) * 384 + 417 - day_rank curr_date)
      else 0)"

function while_fill ::
  "(string \<Rightarrow> 'f option) \<Rightarrow> bool \<Rightarrow> string list \<Rightarrow> datetime \<Rightarrow> datetime \<Rightarrow> 'f price_lookup
     \<Rightarrow> py_error + 'f price_lookup" where
  "while_fill pyfloat fill curr_line_data curr_date next_date price_lookup =
     (if date_less curr_date next_date then
        (case close_price pyfloat curr_line_data of
           Inl e \<Rightarrow> Inl e
         | Inr price \<Rightarrow>
             if fill then
               (case add_day curr_date of
                  Inl e \<Rightarrow> Inl e
                | Inr tomorrow \<Rightarrow>
                    while_fill pyfloat fill curr_line_data tomorrow next_date
                      (price_lookup(strftime curr_date \<mapsto> price)))
             else
               while_fill pyfloat fill curr_line_data next_date next_date
                 (price_lookup(strftime curr_date \<mapsto> price)))
      else Inr price_lookup)"
  by pat_completeness auto
termination
proof (relation "measure (\<lambda>(pyfloat, fill, curr_line_data, curr_date, next_date, price_lookup).
    fill_steps curr_date next_date)")
  show "wf (measure (\<lambda>(pyfloat :: string \<Rightarrow> 'f option, fill :: bool,
      curr_line_data :: string list, curr_date, next_date, price_lookup :: 'f price_lookup).
    fill_steps curr_date next_date))"
    by simp
next
  fix pyfloat :: "string \<Rightarrow> 'f option" and fill :: bool and curr_line_data :: "string list"
    and curr_date next_date tomorrow :: datetime and price_lookup :: "'f price_lookup"
    and price :: 'f
  assume less: "date_less curr_date next_date" and add: "add_day curr_date = Inr tomorrow"
  have dim: "days_in_month (year curr_date) (month curr_date) \<le> 31"
    by (simp add: days_in_month_def)
  have below: "day_rank curr_date < (year next_date + 1) * 384 + 417"
    using less by (auto simp: date_less_def day_rank_def min_def)
  have up: "day_rank curr_date < day_rank tomorrow"
    using add dim by (auto simp: add_day_def day_rank_def min_def split: if_splits)
  from below up have "fill_steps tomorrow next_date < fill_steps curr_date next_date"
    using less unfolding fill_steps_def by (cases "date_less tomorrow next_date") simp_all
  then show "((pyfloat, fill, curr_line_data, tomorrow, next_date,
          price_lookup(strftime curr_date \<mapsto> price)),
         (pyfloat, fill, curr_line_data, curr_date, next_date, price_lookup))
        \<in> measure (\<lambda>(pyfloat, fill, curr_line_data, curr_date, next_date, price_lookup).
            fill_steps curr_date next_date)"
    by simp
next
  fix pyfloat :: "string \<Rightarrow> 'f option" and fill :: bool and curr_line_data :: "string list"
    and curr_date next_date :: datetime and price_lookup :: "'f price_lookup" and price :: 'f
  assume less: "date_less curr_date next_date"
  have "\<not> date_less next_date next_date" by (simp add: date_less_def)
  with less have "fill_steps next_date next_date < fill_steps curr_date next_date"
    by (simp add: fill_steps_def)
  then show "((pyfloat, fill, curr_line_data, next_date, next_date,
          price_lookup(strftime curr_date \<mapsto> price)),
         (pyfloat, fill, curr_line_data, curr_date, next_date, price_lookup))
        \<in> measure (\<lambda>(pyfloat, fill, curr_line_data, curr_date, next_date, price_lookup).
            fill_steps curr_date next_date)"
    by simp
qed

declare while_fill.simps [simp del]

text \<open>
  The \<^verbatim>\<open>for i in range(0, len(file_content) - 1)\<close> loop of lines 114 to 127, over the
  consecutive pairs of lines.  \<^verbatim>\<open>next_date\<close> and \<^verbatim>\<open>next_line_data\<close> are read after the loop:
  the state carries them, \<open>None\<close> while they are unbound.
\<close>

definition line_date :: "string list \<Rightarrow> py_error + datetime" where
  "line_date line_data =
     (case item line_data 0 of Inl e \<Rightarrow> Inl e | Inr text \<Rightarrow> strptime text)"

fun for_pairs ::
  "(string \<Rightarrow> 'f option) \<Rightarrow> bool \<Rightarrow> string list
     \<Rightarrow> 'f price_lookup \<times> (datetime \<times> string list) option
     \<Rightarrow> py_error + 'f price_lookup \<times> (datetime \<times> string list) option" where
  "for_pairs pyfloat fill (curr_line # next_line # rest) (price_lookup, bound) =
     (let curr_line_data = str_split (CHR '','') curr_line;
          next_line_data = str_split (CHR '','') next_line
      in case line_date curr_line_data of
           Inl e \<Rightarrow> Inl e
         | Inr curr_date \<Rightarrow>
             (case line_date next_line_data of
                Inl e \<Rightarrow> Inl e
              | Inr next_date \<Rightarrow>
                  (case while_fill pyfloat fill curr_line_data curr_date next_date
                          price_lookup of
                     Inl e \<Rightarrow> Inl e
                   | Inr price_lookup' \<Rightarrow>
                       for_pairs pyfloat fill (next_line # rest)
                         (price_lookup', Some (next_date, next_line_data)))))"
| "for_pairs pyfloat fill file_content state = Inr state"

text \<open>
  \<^verbatim>\<open>build_price_lut\<close>.  In the single-line branch (line 111) the index \<^verbatim>\<open>i\<close> is read
  before the \<^verbatim>\<open>for\<close> loop has bound it: \<^verbatim>\<open>UnboundLocalError\<close>.
\<close>

definition build_price_lut ::
  "(string \<Rightarrow> 'f option) \<Rightarrow> DataManager \<Rightarrow> filesystem \<Rightarrow> string \<Rightarrow> bool
     \<Rightarrow> py_error + 'f price_lookup" where
  "build_price_lut pyfloat dm fs ticker fill =
     (let file_content = readlines_for dm fs ticker
      in if length file_content = 0 then Inr Map.empty
         else if length file_content = 1 then Inl UnboundLocalError
         else
           case for_pairs pyfloat fill file_content (Map.empty, None) of
             Inl e \<Rightarrow> Inl e
           | Inr (price_lookup, None) \<Rightarrow> Inl UnboundLocalError
           | Inr (price_lookup, Some (next_date, next_line_data)) \<Rightarrow>
               (case close_price pyfloat next_line_data of
                  Inl e \<Rightarrow> Inl e
                | Inr price \<Rightarrow> Inr (price_lookup(strftime next_date \<mapsto> price))))"

section \<open>The strategy parser\<close>

text \<open>A position is the dictionary with the keys \<^verbatim>\<open>is_holding\<close>, \<^verbatim>\<open>ratio\<close>, \<^verbatim>\<open>ticker\<close>,
  \<^verbatim>\<open>buy_signal\<close> and \<^verbatim>\<open>sell_signal\<close>; the field of the key \<^verbatim>\<open>ticker\<close> is \<open>ticker_symbol\<close>
  here, since \<open>ticker\<close> names the argument of the other functions.\<close>

record 'f position =
  is_holding :: bool
  ratio :: 'f
  ticker_symbol :: string
  buy_signal :: string
  sell_signal :: string

record 'f strategy =
  assets :: "string set"
  positions :: "'f position list"

text \<open>The body of \<^verbatim>\<open>for code in [val_a_code, val_b_code]\<close> in \<^verbatim>\<open>_parse_signal\<close>: unpacking
  into two names raises \<^verbatim>\<open>ValueError\<close> unless the split gives exactly two parts.\<close>

definition parse_code ::
  "string set \<times> string set \<Rightarrow> string \<Rightarrow> py_error + string set \<times> string set" where
  "parse_code state code =
     (case state of (tickers, indicators) \<Rightarrow>
        (case str_split (CHR ''~'') code of
           [ticker, indicator] \<Rightarrow>
             Inr (insert (upper ticker) tickers,
                  if indicator \<notin> set [''PRICE''] then insert (upper indicator) indicators
                  else indicators)
         | _ \<Rightarrow> Inl ValueError))"

fun for_each :: "('s \<Rightarrow> 'a \<Rightarrow> py_error + 's) \<Rightarrow> 's \<Rightarrow> 'a list \<Rightarrow> py_error + 's" where
  "for_each body state [] = Inr state"
| "for_each body state (x # xs) =
     (case body state x of Inl e \<Rightarrow> Inl e | Inr state' \<Rightarrow> for_each body state' xs)"

definition parse_signal :: "string \<Rightarrow> py_error + string set \<times> string set" where
  "parse_signal signal_code =
     (if signal_code \<in> set [''ALWAYS'', ''NEVER''] then Inr ({}, {})
      else
        case str_split (CHR '' '') signal_code of
          [val_a_code, uu, val_b_code] \<Rightarrow> for_each parse_code ({}, {}) [val_a_code, val_b_code]
        | _ \<Rightarrow> Inl ValueError)"

text \<open>The body of \<^verbatim>\<open>for signal in [buy_signal, sell_signal]\<close> and the body of
  \<^verbatim>\<open>for line in lines\<close> in \<^verbatim>\<open>build_strategy\<close>.\<close>

definition add_signal ::
  "string set \<times> string set \<Rightarrow> string \<Rightarrow> py_error + string set \<times> string set" where
  "add_signal state signal =
     (case state of (stocks_needed, indicators_needed) \<Rightarrow>
        (case parse_signal signal of
           Inl e \<Rightarrow> Inl e
         | Inr (tickers, indicators) \<Rightarrow>
             Inr (stocks_needed \<union> tickers, indicators_needed \<union> indicators)))"

definition add_line ::
  "(string \<Rightarrow> 'f option) \<Rightarrow> 'f strategy \<times> string set \<times> string set \<Rightarrow> string
     \<Rightarrow> py_error + 'f strategy \<times> string set \<times> string set" where
  "add_line pyfloat state line =
     (case state of (strategy, stocks_needed, indicators_needed) \<Rightarrow>
        (case str_split (CHR '','') line of
           [ratio_text, ticker_text, buy, sell] \<Rightarrow>
             (case for_each add_signal
                     (insert (upper ticker_text) stocks_needed, indicators_needed)
                     [buy, sell] of
                Inl e \<Rightarrow> Inl e
              | Inr (stocks_needed', indicators_needed') \<Rightarrow>
                  (case pyfloat ratio_text of
                     None \<Rightarrow> Inl ValueError
                   | Some r \<Rightarrow>
                       Inr (\<lparr>assets = insert (upper ticker_text) (assets strategy),
                             positions = positions strategy @
                               [\<lparr>is_holding = False, ratio = r, ticker_symbol = upper ticker_text,
                                 buy_signal = buy, sell_signal = sell\<rparr>]\<rparr>,
                            stocks_needed', indicators_needed')))
         | _ \<Rightarrow> Inl ValueError))"

definition build_strategy ::
  "(string \<Rightarrow> 'f option) \<Rightarrow> filesystem \<Rightarrow> string \<Rightarrow> string
     \<Rightarrow> py_error + 'f strategy \<times> string set \<times> string set" where
  "build_strategy pyfloat fs strategy_name strategy_dir =
     for_each (add_line pyfloat) (\<lparr>assets = {}, positions = []\<rparr>, {}, {})
       (readlines fs (strategy_dir @ strategy_name))"

section \<open>Predicates of the statements, and example data\<close>

text \<open>A text with no whitespace at either end: stripping leaves it as it is.\<close>

definition trimmed :: "string \<Rightarrow> bool" where
  "trimmed s = (s = [] \<or> (\<not> isspace (hd s) \<and> \<not> isspace (last s)))"

text \<open>A field that survives the CSV file: no comma, no line terminator (\<^verbatim>\<open>\n\<close> or
  \<^verbatim>\<open>\r\<close>, both of which end a line when the file is read), no surrounding whitespace.\<close>

definition plain_field :: "string \<Rightarrow> bool" where
  "plain_field f = (CHR '','' \<notin> set f \<and> LF \<notin> set f \<and> CR \<notin> set f \<and> trimmed f)"

definition example_dm :: DataManager where
  "example_dm = \<lparr>data_location = ''data/''\<rparr>"

definition jan_rows :: "string list list" where
  "jan_rows =
     [[''2024-01-01'', ''10'', ''12'', ''9'', ''11'', ''1000''],
      [''2024-01-02'', ''11'', ''13'', ''10'', ''12'', ''1100''],
      [''2024-01-03'', ''12'', ''14'', ''11'', ''13'', ''1200'']]"

definition jan_text :: string where
  "jan_text =
     ''2024-01-01,10,12,9,11,1000'' @ [LF] @ ''2024-01-02,11,13,10,12,1100'' @ [LF]"

definition jan_fs :: filesystem where
  "jan_fs = [''data/AAPL.csv'' \<mapsto> jan_text]"

definition gap_rows :: "string list list" where
  "gap_rows =
     [[''2023-12-29'', ''9'', ''11'', ''8'', ''10'', ''900''],
      [''2024-01-03'', ''12'', ''14'', ''11'', ''13'', ''1200'']]"

definition spaced_text :: string where
  "spaced_text =
     '' 2024-01-05 , 1,2,3, 10 ,5 '' @ [CR, LF] @ ''2024-01-08,2,3,4,20,6''"

definition spaced_fs :: filesystem where
  "spaced_fs = [''data/AAPL.csv'' \<mapsto> spaced_text]"

text \<open>A strategy file of one line, and a number parser that knows the text \<^verbatim>\<open>0.5\<close>.\<close>

definition strategy_line :: string where
  "strategy_line = ''0.5,AAPL,ALWAYS,CLOSE~PRICE < AAPL~SMA20''"

definition strategy_fs :: filesystem where
  "strategy_fs = [''./momentum'' \<mapsto> strategy_line @ [LF]]"

definition half_float :: "string \<Rightarrow> real option" where
  "half_float s = (if s = ''0.5'' then Some (1 / 2) else None)"

text \<open>
  The statements about the price lookup table speak of the days from one date up to,
  not including, another; of a stored line and the date and price it stands for (the
  date text parses, is in the form \<^verbatim>\<open>strftime\<close> writes, and the close field parses);
  and of the price of the most recent row dated on or before a day.
\<close>

definition days_from_to :: "datetime \<Rightarrow> datetime \<Rightarrow> datetime set" where
  "days_from_to a b = {dt. valid_date dt \<and> \<not> date_less dt a \<and> date_less dt b}"

definition written_days :: "bool \<Rightarrow> datetime \<Rightarrow> datetime \<Rightarrow> datetime set" where
  "written_days fill a b =
     (if fill then days_from_to a b else if date_less a b then {a} else {})"

definition stored_line :: "(string \<Rightarrow> 'f option) \<Rightarrow> string \<Rightarrow> datetime \<times> 'f \<Rightarrow> bool" where
  "stored_line pyfloat line row =
     (let line_data = str_split (CHR '','') line
      in strptime (line_data ! 0) = Inr (fst row) \<and> strftime (fst row) = line_data ! 0 \<and>
         close_price pyfloat line_data = Inr (snd row))"

definition price_on :: "(datetime \<times> 'f) list \<Rightarrow> datetime \<Rightarrow> 'f" where
  "price_on rows dt = snd (last (filter (\<lambda>row. \<not> date_less dt (fst row)) rows))"

definition table_days :: "bool \<Rightarrow> (datetime \<times> 'f) list \<Rightarrow> datetime set" where
  "table_days fill rows =
     {dt. valid_date dt \<and> \<not> date_less dt (fst (hd rows)) \<and> date_less dt (fst (last rows)) \<and>
          (fill \<or> dt \<in> fst ` set rows)}"

text \<open>The series of the fill example, a number parser for its closes, and a stored
  series of one row.\<close>

definition gap_text :: string where
  "gap_text = ''2024-01-05,9,11,8,10,100'' @ [LF] @ ''2024-01-08,19,21,18,20,200'' @ [LF]"

definition gap_fs :: filesystem where
  "gap_fs = [''data/AAPL.csv'' \<mapsto> gap_text]"

definition gap_float :: "string \<Rightarrow> real option" where
  "gap_float s = (if s = ''10'' then Some 10 else if s = ''20'' then Some 20 else None)"

definition gap_series :: "(datetime \<times> real) list" where
  "gap_series =
     [(\<lparr>year = 2024, month = 1, day = 5\<rparr>, 10), (\<lparr>year = 2024, month = 1, day = 8\<rparr>, 20)]"

definition march_fs :: filesystem where
  "march_fs = [''data/AAPL.csv'' \<mapsto> ''2024-03-01,40,43,39,42,1000'' @ [LF]]"

section \<open>Strings and lines\<close>

lemma str_split_not_Nil: "str_split sep s \<noteq> []"
  by (induction s) (auto split: list.splits)

lemma str_split_no_sep: "sep \<notin> set s \<Longrightarrow> str_split sep s = [s]"
  by (induction s) auto

lemma str_split_append_sep:
  "sep \<notin> set x \<Longrightarrow> str_split sep (x @ sep # s) = x # str_split sep s"
  by (induction x) (auto split: list.splits)

lemma str_split_join:
  "row \<noteq> [] \<Longrightarrow> \<forall>f \<in> set row. sep \<notin> set f \<Longrightarrow> str_split sep (join [sep] row) = row"
  by (induction "[sep]" row rule: join.induct) (auto simp: str_split_no_sep str_split_append_sep)

lemma dropWhile_hd: "s \<noteq> [] \<Longrightarrow> \<not> P (hd s) \<Longrightarrow> dropWhile P s = s"
  by (cases s) auto

lemma isspace_LF: "isspace LF"
  by (simp add: isspace_def LF_def)

lemma not_isspace_comma: "\<not> isspace (CHR '','')"
  by (simp add: isspace_def)

lemma strip_trimmed: "trimmed s \<Longrightarrow> strip s = s"
proof (cases "s = []")
  case True
  then show ?thesis by (simp add: strip_def)
next
  case False
  assume "trimmed s"
  with False have h: "\<not> isspace (hd s)" and l: "\<not> isspace (last s)"
    by (auto simp: trimmed_def)
  from False h have "dropWhile isspace s = s" by (rule dropWhile_hd)
  moreover from False l have "dropWhile isspace (rev s) = rev s"
    by (intro dropWhile_hd) (auto simp: hd_rev)
  ultimately show ?thesis by (simp add: strip_def)
qed

lemma strip_line: "trimmed s \<Longrightarrow> strip (s @ [LF]) = s"
proof (cases "s = []")
  case True
  then show ?thesis by (simp add: strip_def isspace_LF)
next
  case False
  assume "trimmed s"
  with False have h: "\<not> isspace (hd s)" and l: "\<not> isspace (last s)"
    by (auto simp: trimmed_def)
  from False h have "dropWhile isspace (s @ [LF]) = s @ [LF]"
    by (intro dropWhile_hd) auto
  moreover from False l have "dropWhile isspace (rev s) = rev s"
    by (intro dropWhile_hd) (auto simp: hd_rev)
  ultimately show ?thesis by (simp add: strip_def isspace_LF)
qed

lemma trimmed_strip: "trimmed (strip s)"
proof -
  define t where "t = dropWhile isspace s"
  define u where "u = dropWhile isspace (rev t)"
  have st: "strip s = rev u" by (simp add: strip_def t_def u_def)
  show ?thesis
  proof (cases "u = []")
    case True
    then show ?thesis by (simp add: st trimmed_def)
  next
    case False
    have hu: "\<not> isspace (hd u)" using False unfolding u_def by (metis hd_dropWhile)
    obtain v where v: "rev t = v @ u" unfolding u_def by (metis takeWhile_dropWhile_id)
    then have t: "t = rev u @ rev v" by (metis rev_append rev_rev_ident)
    have "t \<noteq> []" using False t by simp
    then have "\<not> isspace (hd t)" unfolding t_def by (metis hd_dropWhile)
    then have "\<not> isspace (hd (rev u))" using t False by (simp add: hd_append)
    moreover have "\<not> isspace (last (rev u))" using hu False by (simp add: last_rev)
    ultimately show ?thesis by (simp add: st trimmed_def)
  qed
qed

lemma trimmed_join: "\<forall>f \<in> set row. trimmed f \<Longrightarrow> trimmed (join '','' row)"
  by (induction "'',''" row rule: join.induct)
    (auto simp: trimmed_def not_isspace_comma hd_append split: if_splits)

lemma universal_newlines_id: "CR \<notin> set s \<Longrightarrow> universal_newlines s = s"
  by (induction s rule: universal_newlines.induct) auto

lemma lines_from_line:
  "LF \<notin> set b \<Longrightarrow> lines_from acc (b @ LF # rest) = (acc @ b @ [LF]) # lines_from [] rest"
  by (induction b arbitrary: acc) auto

lemma foldl_csv:
  "foldl (\<lambda>text line. text @ csv_line line) acc data = acc @ concat (map csv_line data)"
  by (induction data arbitrary: acc) auto

lemma foldl_rows: "foldl (\<lambda>data line. data @ [f line]) acc ls = acc @ map f ls"
  by (induction ls arbitrary: acc) auto

section \<open>Reading and writing a series\<close>

lemma read_csv_file_rows_for_map:
  "read_csv_file_rows_for dm fs ticker =
     map (\<lambda>line. map strip (str_split (CHR '','') line)) (readlines_for dm fs ticker)"
  by (simp add: read_csv_file_rows_for_def foldl_rows)

lemma rows_read_not_Nil: "row \<in> set (read_csv_file_rows_for dm fs ticker) \<Longrightarrow> row \<noteq> []"
  by (auto simp: read_csv_file_rows_for_map str_split_not_Nil)

lemma read_row_format:
  "read_stock_data dm fs ticker ''row'' = Inr (read_csv_file_rows_for dm fs ticker)"
  by (simp add: read_stock_data_def)

lemma stored_file_exists:
  "read_csv_file_rows_for dm fs ticker \<noteq> [] \<Longrightarrow>
     \<exists>content. fs (filename_for dm ticker) = Some content"
  by (auto simp: read_csv_file_rows_for_map readlines_for_def split: option.splits)

lemma join_plain:
  assumes "row \<noteq> []" "\<forall>f \<in> set row. plain_field f"
  shows "LF \<notin> set (join '','' row)" and "CR \<notin> set (join '','' row)"
    and "trimmed (join '','' row)"
    and "str_split (CHR '','') (join '','' row) = row" and "map strip row = row"
proof -
  have "\<forall>f \<in> set row. LF \<notin> set f" using assms by (simp add: plain_field_def)
  then show "LF \<notin> set (join '','' row)"
    by (induction "'',''" row rule: join.induct) (auto simp: LF_def)
  have "\<forall>f \<in> set row. CR \<notin> set f" using assms by (simp add: plain_field_def)
  then show "CR \<notin> set (join '','' row)"
    by (induction "'',''" row rule: join.induct) (auto simp: CR_def)
  show "trimmed (join '','' row)" using assms by (simp add: trimmed_join plain_field_def)
  show "str_split (CHR '','') (join '','' row) = row"
    using assms str_split_join[of row "CHR '',''"] by (simp add: plain_field_def)
  show "map strip row = row" using assms by (simp add: map_idI strip_trimmed plain_field_def)
qed

lemma csv_line_no_CR:
  assumes "row \<noteq> []" "\<forall>f \<in> set row. plain_field f"
  shows "CR \<notin> set (csv_line row)"
proof -
  have "CR \<noteq> LF" by (simp add: CR_def LF_def)
  with join_plain(2)[OF assms] show ?thesis by (simp add: csv_line_def)
qed

lemma file_lines_csv:
  assumes "\<forall>row \<in> set data. row \<noteq> [] \<and> (\<forall>f \<in> set row. plain_field f)"
  shows "file_lines (concat (map csv_line data)) = map csv_line data"
proof -
  have "\<forall>row \<in> set data. CR \<notin> set (csv_line row)"
    using assms csv_line_no_CR by blast
  then have "CR \<notin> set (concat (map csv_line data))" by simp
  then have "file_lines (concat (map csv_line data)) = lines_from [] (concat (map csv_line data))"
    by (simp add: file_lines_def universal_newlines_id)
  also from assms have "\<dots> = map csv_line data"
  proof (induction data)
    case Nil
    then show ?case by simp
  next
    case (Cons row data)
    then have "LF \<notin> set (join '','' row)" by (simp add: join_plain(1))
    then show ?case
      using Cons lines_from_line[of "join '','' row" "[]"] by (simp add: csv_line_def)
  qed
  finally show ?thesis .
qed

lemma read_written:
  assumes "fs (filename_for dm ticker) = Some (concat (map csv_line data))"
    and "\<forall>row \<in> set data. row \<noteq> [] \<and> (\<forall>f \<in> set row. plain_field f)"
  shows "read_csv_file_rows_for dm fs ticker = data"
proof -
  have "readlines_for dm fs ticker = map (\<lambda>row. strip (csv_line row)) data"
    using assms by (simp add: readlines_for_def file_lines_csv)
  also have "\<dots> = map (join '','') data"
    using assms(2) by (intro map_cong) (auto simp: csv_line_def strip_line join_plain(3))
  finally have "read_csv_file_rows_for dm fs ticker =
      map (\<lambda>row. map strip (str_split (CHR '','') (join '','' row))) data"
    by (simp add: read_csv_file_rows_for_map comp_def)
  also have "\<dots> = map (\<lambda>row. row) data"
    using assms(2) by (intro map_cong) (auto simp: join_plain(4,5))
  finally show ?thesis by simp
qed

lemma example_filename: "filename_for example_dm ''aapl'' = ''data/AAPL.csv''"
  by (simp add: filename_for_def example_dm_def upper_def upper_char_def)

lemma jan_stored: "read_csv_file_rows_for example_dm jan_fs ''aapl'' = take 2 jan_rows"
  by (simp add: read_csv_file_rows_for_def readlines_for_def example_filename jan_fs_def
      jan_text_def jan_rows_def file_lines_def strip_def isspace_def LF_def CR_def)

text \<open>
  Claim C8.  Reading a ticker that has no file returns the empty list, not an error.
  Reading a ticker that has a file returns one row per line of the file, in file
  order: the line stripped, split at the commas, each field stripped.  The fields stay
  texts, and none of them starts or ends with whitespace.
\<close>

theorem read_rows_of_stored_series:
  "(fs (filename_for dm ticker) = None \<longrightarrow> read_stock_data dm fs ticker ''row'' = Inr []) \<and>
   (\<forall>content. fs (filename_for dm ticker) = Some content \<longrightarrow>
      (\<exists>rows. read_stock_data dm fs ticker ''row'' = Inr rows \<and>
         rows = map (\<lambda>line. map strip (str_split (CHR '','') (strip line))) (file_lines content) \<and>
         (\<forall>row \<in> set rows. row \<noteq> [] \<and> (\<forall>field \<in> set row. trimmed field))))"
  by (auto simp: read_stock_data_def read_csv_file_rows_for_map readlines_for_def comp_def
      trimmed_strip str_split_not_Nil)

theorem read_rows_of_stored_series_witness:
  "read_stock_data example_dm spaced_fs ''msft'' ''row'' = Inr [] \<and>
   read_stock_data example_dm spaced_fs ''aapl'' ''row'' =
     Inr [[''2024-01-05'', ''1'', ''2'', ''3'', ''10'', ''5''],
          [''2024-01-08'', ''2'', ''3'', ''4'', ''20'', ''6'']]"
proof -
  have m: "spaced_fs (filename_for example_dm ''msft'') = None"
    by (simp add: filename_for_def example_dm_def upper_def upper_char_def spaced_fs_def)
  have a: "spaced_fs (filename_for example_dm ''aapl'') = Some spaced_text"
    by (simp add: example_filename spaced_fs_def)
  from m have "read_stock_data example_dm spaced_fs ''msft'' ''row'' = Inr []"
    using read_rows_of_stored_series[of spaced_fs example_dm "''msft''"] by blast
  moreover from a have "read_stock_data example_dm spaced_fs ''aapl'' ''row'' =
      Inr (map (\<lambda>line. map strip (str_split (CHR '','') (strip line))) (file_lines spaced_text))"
    using read_rows_of_stored_series[of spaced_fs example_dm "''aapl''"] by blast
  ultimately show ?thesis
    by (simp add: spaced_text_def file_lines_def strip_def isspace_def LF_def CR_def)
qed

text \<open>
  Claim C5.  Writing rows of six plain fields (no comma, no line terminator, no
  surrounding whitespace) with \<^verbatim>\<open>append=False\<close> returns normally, and reading the ticker
  back in row format returns exactly the rows written, whatever was stored before.
\<close>

theorem write_read_roundtrip:
  assumes "\<forall>row \<in> set data. length row = 6 \<and> (\<forall>f \<in> set row. plain_field f)"
  shows "fst (write_stock_data dm fs ticker data False) = Inr () \<and>
         read_stock_data dm (snd (write_stock_data dm fs ticker data False)) ticker ''row''
           = Inr data"
proof -
  let ?fs = "snd (write_stock_data dm fs ticker data False)"
  have "?fs (filename_for dm ticker) = Some (concat (map csv_line data))"
    by (simp add: write_stock_data_def write_data_to_csv_file_def foldl_csv Let_def)
  moreover from assms have "\<forall>row \<in> set data. row \<noteq> [] \<and> (\<forall>f \<in> set row. plain_field f)"
    by auto
  ultimately have "read_csv_file_rows_for dm ?fs ticker = data" by (rule read_written)
  then show ?thesis by (simp add: read_row_format) (simp add: write_stock_data_def Let_def)
qed

theorem write_read_roundtrip_witness:
  "fst (write_stock_data example_dm jan_fs ''aapl'' jan_rows False) = Inr () \<and>
   read_stock_data example_dm (snd (write_stock_data example_dm jan_fs ''aapl'' jan_rows False))
     ''aapl'' ''row'' = Inr jan_rows"
proof -
  have "\<forall>row \<in> set jan_rows. length row = 6 \<and> (\<forall>f \<in> set row. plain_field f)"
    by (simp add: jan_rows_def plain_field_def trimmed_def isspace_def LF_def CR_def)
  then show ?thesis by (rule write_read_roundtrip)
qed

section \<open>Appending to a stored series\<close>

lemma next_index_found:
  assumes "\<forall>row \<in> set data. row \<noteq> []" "L \<in> (\<lambda>row. row ! 0) ` set data"
  shows "\<exists>i < length data. data ! i ! 0 = L \<and> (\<forall>j < i. data ! j ! 0 \<noteq> L) \<and>
           next_index L k data = Inr (k + i)"
  using assms
proof (induction data arbitrary: k)
  case Nil
  then show ?case by simp
next
  case (Cons row data)
  show ?case
  proof (cases "row ! 0 = L")
    case True
    with Cons.prems show ?thesis by (intro exI[of _ 0]) (simp add: item_def)
  next
    case False
    with Cons.prems have "L \<in> (\<lambda>row. row ! 0) ` set data" by auto
    with Cons obtain i where i: "i < length data" "data ! i ! 0 = L"
      "\<forall>j < i. data ! j ! 0 \<noteq> L" "next_index L (Suc k) data = Inr (Suc k + i)"
      by (metis list.set_intros(2))
    have "\<forall>j < Suc i. (row # data) ! j ! 0 \<noteq> L"
      using False i(3) by (auto simp: nth_Cons split: nat.splits)
    with i False Cons.prems(1) show ?thesis
      by (intro exI[of _ "Suc i"]) (simp add: item_def)
  qed
qed

lemma next_index_missing:
  "\<forall>row \<in> set data. row \<noteq> [] \<Longrightarrow> L \<notin> (\<lambda>row. row ! 0) ` set data \<Longrightarrow>
     next_index L k data = Inl StopIteration"
  by (induction data arbitrary: k) (auto simp: item_def)

lemma rows_to_append_contained:
  assumes "existing \<noteq> []" "last existing \<noteq> []" "data \<noteq> []" "\<forall>row \<in> set data. row \<noteq> []"
    and "last existing ! 0 < last data ! 0" "data ! 0 ! 0 < last existing ! 0"
  shows "rows_to_append existing data =
           raise_bind (next_index (last existing ! 0) 0 data) (\<lambda>i. Inr (drop (i + 1) data))"
  using assms by (simp add: rows_to_append_def raise_bind_def item_def last_item_def)

lemma rows_to_append_outside:
  assumes "existing \<noteq> []" "last existing \<noteq> []" "data \<noteq> []" "\<forall>row \<in> set data. row \<noteq> []"
    and "\<not> (data ! 0 ! 0 < last existing ! 0 \<and> last existing ! 0 < last data ! 0)"
  shows "rows_to_append existing data = Inr []"
  using assms by (auto simp add: rows_to_append_def raise_bind_def item_def last_item_def)

lemma append_writes:
  "write_stock_data dm fs ticker data True =
    (case rows_to_append (read_csv_file_rows_for dm fs ticker) data of
       Inl e \<Rightarrow> (Inl e, fs)
     | Inr rows \<Rightarrow> (Inr (), fs(filename_for dm ticker \<mapsto>
          (case fs (filename_for dm ticker) of None \<Rightarrow> [] | Some content \<Rightarrow> content)
            @ concat (map csv_line rows))))"
  by (simp add: write_stock_data_def read_stock_data_def write_data_to_csv_file_def foldl_csv
      split: sum.splits)

text \<open>
  Claim C1.  The stored series is not empty and its last date \<open>L\<close> lies strictly
  between the first and the last date of the incoming rows, which are sorted by
  ascending date and have a row dated \<open>L\<close>.  Then the write with \<^verbatim>\<open>append=True\<close> returns
  normally and appends to the file exactly the incoming rows after position \<open>i\<close>, where
  \<open>i\<close> is the position of the row dated \<open>L\<close>: every row before it is older than \<open>L\<close>, and no
  appended row is older than \<open>L\<close>.
\<close>

theorem append_after_last_stored_date:
  assumes "read_stock_data dm fs ticker ''row'' = Inr existing" and "existing \<noteq> []"
    and "L = last existing ! 0"
    and "data \<noteq> []" and "\<forall>row \<in> set data. length row = 6"
    and "sorted (map (\<lambda>row. row ! 0) data)"
    and "L < last data ! 0" and "data ! 0 ! 0 < L"
    and "L \<in> (\<lambda>row. row ! 0) ` set data"
  shows "\<exists>i content. i < length data \<and> data ! i ! 0 = L \<and> (\<forall>j < i. data ! j ! 0 < L) \<and>
           (\<forall>row \<in> set (drop (Suc i) data). L \<le> row ! 0) \<and>
           fs (filename_for dm ticker) = Some content \<and>
           write_stock_data dm fs ticker data True =
             (Inr (), fs(filename_for dm ticker \<mapsto>
                content @ concat (map csv_line (drop (Suc i) data))))"
proof -
  have existing: "existing = read_csv_file_rows_for dm fs ticker"
    using assms(1) by (simp add: read_row_format)
  have ne: "\<forall>row \<in> set data. row \<noteq> []" using assms(5) by auto
  have ex: "last existing \<noteq> []"
    using assms(2) rows_read_not_Nil[of "last existing" dm fs ticker] existing by auto
  obtain i where i: "i < length data" "data ! i ! 0 = L" "\<forall>j < i. data ! j ! 0 \<noteq> L"
      "next_index L 0 data = Inr i"
    using next_index_found[OF ne assms(9), of 0] by auto
  obtain content where c: "fs (filename_for dm ticker) = Some content"
    using stored_file_exists assms(2) existing by blast
  have "rows_to_append existing data = Inr (drop (Suc i) data)"
    using rows_to_append_contained[OF assms(2) ex assms(4) ne] assms(3,7,8) i(4)
    by (simp add: raise_bind_def)
  then have w: "write_stock_data dm fs ticker data True =
      (Inr (), fs(filename_for dm ticker \<mapsto> content @ concat (map csv_line (drop (Suc i) data))))"
    by (simp add: append_writes c existing)
  have before: "\<forall>j < i. data ! j ! 0 < L"
  proof (intro allI impI)
    fix j assume j: "j < i"
    then have "map (\<lambda>row. row ! 0) data ! j \<le> map (\<lambda>row. row ! 0) data ! i"
      using assms(6) i(1) by (intro sorted_nth_mono) auto
    then have "data ! j ! 0 \<le> L" using i j by simp
    with i(3) j show "data ! j ! 0 < L" by (simp add: order_less_le)
  qed
  have after: "\<forall>row \<in> set (drop (Suc i) data). L \<le> row ! 0"
  proof
    fix row assume "row \<in> set (drop (Suc i) data)"
    then obtain n where n: "n < length data - Suc i" "row = data ! (Suc i + n)"
      by (auto simp: in_set_conv_nth)
    then have "map (\<lambda>row. row ! 0) data ! i \<le> map (\<lambda>row. row ! 0) data ! (Suc i + n)"
      using assms(6) by (intro sorted_nth_mono) auto
    with n i show "L \<le> row ! 0" by simp
  qed
  from i(1,2) before after c w show ?thesis by blast
qed

text \<open>The example of the specification: two rows stored, three incoming, the row of
  2024-01-03 is the one appended.\<close>

theorem append_after_last_stored_date_witness:
  "write_stock_data example_dm jan_fs ''aapl'' jan_rows True =
     (Inr (), jan_fs(''data/AAPL.csv'' \<mapsto> jan_text @ ''2024-01-03,12,14,11,13,1200'' @ [LF]))"
proof -
  have h: "read_stock_data example_dm jan_fs ''aapl'' ''row'' = Inr (take 2 jan_rows)"
      "take 2 jan_rows \<noteq> []"
      "''2024-01-02'' = last (take 2 jan_rows) ! 0"
      "jan_rows \<noteq> []" "\<forall>row \<in> set jan_rows. length row = 6"
      "sorted (map (\<lambda>row. row ! 0) jan_rows)"
      "''2024-01-02'' < last jan_rows ! 0" "jan_rows ! 0 ! 0 < ''2024-01-02''"
      "''2024-01-02'' \<in> (\<lambda>row. row ! 0) ` set jan_rows"
    by (simp_all add: read_row_format jan_stored) (simp_all add: jan_rows_def)
  obtain i content where i: "i < length jan_rows" "jan_rows ! i ! 0 = ''2024-01-02''"
    and c: "jan_fs (filename_for example_dm ''aapl'') = Some content"
    and w: "write_stock_data example_dm jan_fs ''aapl'' jan_rows True =
       (Inr (), jan_fs(filename_for example_dm ''aapl'' \<mapsto>
          content @ concat (map csv_line (drop (Suc i) jan_rows))))"
    using append_after_last_stored_date[OF h] by blast
  from i(1) have "i = 0 \<or> i = 1 \<or> i = 2" by (auto simp: jan_rows_def)
  with i(2) have "i = 1" by (auto simp: jan_rows_def)
  moreover from c have "content = jan_text" by (simp add: example_filename jan_fs_def)
  ultimately show ?thesis using w
    by (simp add: example_filename jan_rows_def csv_line_def)
qed

text \<open>
  Claim C10.  The stored series is not empty and its last date \<open>L\<close> lies strictly
  between the first and the last date of the incoming rows, but no incoming row is
  dated \<open>L\<close>.  Then the write with \<^verbatim>\<open>append=True\<close> ends in \<^verbatim>\<open>StopIteration\<close>, raised by the
  search for the row dated \<open>L\<close>, and the files are as they were.
\<close>

theorem append_without_splice_row_raises:
  assumes "read_stock_data dm fs ticker ''row'' = Inr existing" and "existing \<noteq> []"
    and "L = last existing ! 0"
    and "data \<noteq> []" and "\<forall>row \<in> set data. length row = 6"
    and "data ! 0 ! 0 < L" and "L < last data ! 0"
    and "L \<notin> (\<lambda>row. row ! 0) ` set data"
  shows "write_stock_data dm fs ticker data True = (Inl StopIteration, fs)"
proof -
  have existing: "existing = read_csv_file_rows_for dm fs ticker"
    using assms(1) by (simp add: read_row_format)
  have ne: "\<forall>row \<in> set data. row \<noteq> []" using assms(5) by auto
  have ex: "last existing \<noteq> []"
    using assms(2) rows_read_not_Nil[of "last existing" dm fs ticker] existing by auto
  have "rows_to_append existing data = Inl StopIteration"
    using rows_to_append_contained[OF assms(2) ex assms(4) ne] assms(3,6,7)
      next_index_missing[OF ne assms(8), of 0]
    by (simp add: raise_bind_def)
  then show ?thesis by (simp add: append_writes existing)
qed

theorem append_without_splice_row_raises_witness:
  "write_stock_data example_dm jan_fs ''aapl'' gap_rows True = (Inl StopIteration, jan_fs)"
proof -
  have h: "read_stock_data example_dm jan_fs ''aapl'' ''row'' = Inr (take 2 jan_rows)"
      "take 2 jan_rows \<noteq> []"
      "''2024-01-02'' = last (take 2 jan_rows) ! 0"
      "gap_rows \<noteq> []" "\<forall>row \<in> set gap_rows. length row = 6"
      "gap_rows ! 0 ! 0 < ''2024-01-02''" "''2024-01-02'' < last gap_rows ! 0"
      "''2024-01-02'' \<notin> (\<lambda>row. row ! 0) ` set gap_rows"
    by (simp_all add: read_row_format jan_stored) (simp_all add: jan_rows_def gap_rows_def)
  show ?thesis using append_without_splice_row_raises[OF h] .
qed

text \<open>
  Claim C2.  When the incoming rows are not empty and the last stored date is not
  strictly between their first and last date, the write with \<^verbatim>\<open>append=True\<close> returns
  normally and leaves every file as it was.
\<close>

lemma append_outside_unchanged:
  assumes "read_stock_data dm fs ticker ''row'' = Inr existing" and "existing \<noteq> []"
    and "L = last existing ! 0"
    and "data \<noteq> []" and "\<forall>row \<in> set data. length row = 6"
    and "\<not> (data ! 0 ! 0 < L \<and> L < last data ! 0)"
  shows "write_stock_data dm fs ticker data True = (Inr (), fs)"
proof -
  have existing: "existing = read_csv_file_rows_for dm fs ticker"
    using assms(1) by (simp add: read_row_format)
  have ne: "\<forall>row \<in> set data. row \<noteq> []" using assms(5) by auto
  have ex: "last existing \<noteq> []"
    using assms(2) rows_read_not_Nil[of "last existing" dm fs ticker] existing by auto
  obtain content where c: "fs (filename_for dm ticker) = Some content"
    using stored_file_exists assms(2) existing by blast
  have "rows_to_append existing data = Inr []"
    using rows_to_append_outside[OF assms(2) ex assms(4) ne] assms(3,6) by simp
  then show ?thesis using c by (simp add: append_writes existing fun_upd_idem)
qed

text \<open>
  With no incoming row at all the containment test reads \<^verbatim>\<open>data[-1]\<close> of an empty list:
  the write ends in \<^verbatim>\<open>IndexError\<close> whenever a series is stored.
\<close>

lemma append_empty_raises:
  assumes "read_stock_data dm fs ticker ''row'' = Inr existing" and "existing \<noteq> []"
  shows "write_stock_data dm fs ticker [] True = (Inl IndexError, fs)"
proof -
  have existing: "existing = read_csv_file_rows_for dm fs ticker"
    using assms(1) by (simp add: read_row_format)
  have ex: "last existing \<noteq> []"
    using assms(2) rows_read_not_Nil[of "last existing" dm fs ticker] existing by auto
  with assms(2) have "rows_to_append existing [] = Inl IndexError"
    by (simp add: rows_to_append_def raise_bind_def item_def last_item_def)
  then show ?thesis by (simp add: append_writes existing)
qed

text \<open>
  Claim C2, at the stored series of two rows and no incoming row: the write with
  \<^verbatim>\<open>append=True\<close> raises \<^verbatim>\<open>IndexError\<close> where the claim has it return silently.
\<close>

theorem append_empty_incoming_raises:
  "read_stock_data example_dm jan_fs ''aapl'' ''row'' = Inr (take 2 jan_rows) \<and>
   write_stock_data example_dm jan_fs ''aapl'' [] True = (Inl IndexError, jan_fs)"
proof -
  have r: "read_stock_data example_dm jan_fs ''aapl'' ''row'' = Inr (take 2 jan_rows)"
    by (simp add: read_row_format jan_stored)
  have "take 2 jan_rows \<noteq> []" by (simp add: jan_rows_def)
  with r show ?thesis using append_empty_raises by blast
qed

section \<open>Parsing signals and strategies\<close>

lemma parse_signal_terms:
  assumes "str_split (CHR '' '') signal_code = [val_a_code, operator, val_b_code]"
    and "str_split (CHR ''~'') val_a_code = [ticker_a, indicator_a]"
    and "str_split (CHR ''~'') val_b_code = [ticker_b, indicator_b]"
  shows "parse_signal signal_code =
           Inr ({upper ticker_a, upper ticker_b},
                upper ` ({indicator_a, indicator_b} - {''PRICE''}))"
proof -
  have "signal_code \<noteq> ''ALWAYS''" "signal_code \<noteq> ''NEVER''"
    using assms(1) by auto
  then show ?thesis using assms
    by (auto simp: parse_signal_def parse_code_def)
qed

text \<open>
  Claim C6.  A strategy file whose only line is
  \<^verbatim>\<open>0.5,AAPL,ALWAYS,CLOSE~PRICE < AAPL~SMA20\<close> parses to one position with the ratio
  parsed from \<^verbatim>\<open>0.5\<close>, the ticker \<^verbatim>\<open>AAPL\<close>, the two signal texts as written and
  \<^verbatim>\<open>is_holding\<close> false; the instruments are \<^verbatim>\<open>AAPL\<close> and \<^verbatim>\<open>CLOSE\<close>, the only indicator is
  \<^verbatim>\<open>SMA20\<close>, and \<^verbatim>\<open>PRICE\<close> is not an indicator.
\<close>

theorem build_strategy_single_line:
  assumes "readlines fs (strategy_dir @ strategy_name) =
             [''0.5,AAPL,ALWAYS,CLOSE~PRICE < AAPL~SMA20'']"
    and "pyfloat ''0.5'' = Some half"
  shows "\<exists>indicators.
           build_strategy pyfloat fs strategy_name strategy_dir =
             Inr (\<lparr>assets = {''AAPL''},
                   positions = [\<lparr>is_holding = False, ratio = half, ticker_symbol = ''AAPL'',
                                 buy_signal = ''ALWAYS'',
                                 sell_signal = ''CLOSE~PRICE < AAPL~SMA20''\<rparr>]\<rparr>,
                  {''AAPL'', ''CLOSE''}, indicators) \<and>
           indicators = {''SMA20''} \<and> ''PRICE'' \<notin> indicators"
  using assms
  by (simp add: build_strategy_def add_line_def add_signal_def parse_signal_def parse_code_def
      upper_def upper_char_def insert_commute)

theorem build_strategy_single_line_witness:
  "build_strategy half_float strategy_fs ''momentum'' ''./'' =
     Inr (\<lparr>assets = {''AAPL''},
           positions = [\<lparr>is_holding = False, ratio = 1 / 2, ticker_symbol = ''AAPL'',
                         buy_signal = ''ALWAYS'',
                         sell_signal = ''CLOSE~PRICE < AAPL~SMA20''\<rparr>]\<rparr>,
          {''AAPL'', ''CLOSE''}, {''SMA20''})"
proof -
  have l: "readlines strategy_fs (''./'' @ ''momentum'') =
      [''0.5,AAPL,ALWAYS,CLOSE~PRICE < AAPL~SMA20'']"
    by (simp add: readlines_def strategy_fs_def strategy_line_def file_lines_def strip_def
        isspace_def LF_def CR_def)
  have f: "half_float ''0.5'' = Some (1 / 2)" by (simp add: half_float_def)
  from build_strategy_single_line[of strategy_fs "''./''" "''momentum''" half_float "1 / 2", OF l f]
  obtain indicators where
    "build_strategy half_float strategy_fs ''momentum'' ''./'' =
       Inr (\<lparr>assets = {''AAPL''},
             positions = [\<lparr>is_holding = False, ratio = 1 / 2, ticker_symbol = ''AAPL'',
                           buy_signal = ''ALWAYS'',
                           sell_signal = ''CLOSE~PRICE < AAPL~SMA20''\<rparr>]\<rparr>,
            {''AAPL'', ''CLOSE''}, indicators)"
    and "indicators = {''SMA20''}"
    by (elim exE conjE)
  then show ?thesis by (simp only:)
qed

text \<open>
  Claim C7.  A signal other than \<^verbatim>\<open>ALWAYS\<close> and \<^verbatim>\<open>NEVER\<close> that does not split at
  single spaces into exactly three tokens, or whose first or third token does not
  split at \<^verbatim>\<open>~\<close> into exactly two parts, raises \<^verbatim>\<open>ValueError\<close>: no sets are returned.
\<close>

theorem malformed_signal_raises:
  assumes "signal_code \<noteq> ''ALWAYS''" and "signal_code \<noteq> ''NEVER''"
    and "length (str_split (CHR '' '') signal_code) \<noteq> 3 \<or>
         length (str_split (CHR ''~'') (str_split (CHR '' '') signal_code ! 0)) \<noteq> 2 \<or>
         length (str_split (CHR ''~'') (str_split (CHR '' '') signal_code ! 2)) \<noteq> 2"
  shows "parse_signal signal_code = Inl ValueError"
proof (cases "length (str_split (CHR '' '') signal_code) = 3")
  case False
  then show ?thesis using assms(1,2)
    by (auto simp: parse_signal_def split: list.splits)
next
  case True
  then obtain val_a_code operator val_b_code
    where parts: "str_split (CHR '' '') signal_code = [val_a_code, operator, val_b_code]"
    by (auto simp: length_Suc_conv numeral_3_eq_3)
  with assms(3) have "length (str_split (CHR ''~'') val_a_code) \<noteq> 2 \<or>
      length (str_split (CHR ''~'') val_b_code) \<noteq> 2"
    by simp
  then show ?thesis using assms(1,2) parts
    by (auto simp: parse_signal_def parse_code_def split: list.splits)
qed

text \<open>A signal of four tokens, a term without \<^verbatim>\<open>~\<close> and a term with two \<^verbatim>\<open>~\<close>.\<close>

theorem malformed_signal_raises_witness:
  "parse_signal ''A~B < C~D E~F'' = Inl ValueError \<and>
   parse_signal ''A~B < CD'' = Inl ValueError \<and>
   parse_signal ''A~B~C < C~D'' = Inl ValueError"
proof -
  have "parse_signal ''A~B < C~D E~F'' = Inl ValueError"
    by (rule malformed_signal_raises) simp_all
  moreover have "parse_signal ''A~B < CD'' = Inl ValueError"
    by (rule malformed_signal_raises) simp_all
  moreover have "parse_signal ''A~B~C < C~D'' = Inl ValueError"
    by (rule malformed_signal_raises) simp_all
  ultimately show ?thesis by simp
qed

text \<open>
  The text \<^verbatim>\<open>A~B C~D E~F\<close> of claim C7 has two spaces, hence three tokens: it is a
  signal with the operator token \<^verbatim>\<open>C~D\<close>, and it parses.
\<close>

theorem three_token_signal_parses:
  "length (str_split (CHR '' '') ''A~B C~D E~F'') = 3 \<and>
   parse_signal ''A~B C~D E~F'' = Inr ({''A'', ''E''}, {''B'', ''F''})"
  by (auto simp: parse_signal_def parse_code_def upper_def upper_char_def)

text \<open>
  Claim C9.  The test that keeps \<^verbatim>\<open>PRICE\<close> out of the indicators compares the text as
  written: an indicator that is not the text \<^verbatim>\<open>PRICE\<close> but whose upper case is, such as
  \<^verbatim>\<open>price\<close>, is upper-cased and added, so that \<^verbatim>\<open>PRICE\<close> is in the indicators returned.
\<close>

theorem lowercase_price_is_an_indicator:
  assumes "str_split (CHR '' '') signal_code = [val_a_code, operator, val_b_code]"
    and "str_split (CHR ''~'') val_a_code = [ticker_a, indicator_a]"
    and "str_split (CHR ''~'') val_b_code = [ticker_b, indicator_b]"
    and "indicator \<in> {indicator_a, indicator_b}"
    and "indicator \<noteq> ''PRICE''" and "upper indicator = ''PRICE''"
  shows "\<exists>tickers indicators. parse_signal signal_code = Inr (tickers, indicators) \<and>
           ''PRICE'' \<in> indicators"
proof -
  have "''PRICE'' \<in> upper ` ({indicator_a, indicator_b} - {''PRICE''})"
    using assms(4-6) by (metis Diff_iff image_eqI singletonD)
  then show ?thesis using parse_signal_terms[OF assms(1-3)] by blast
qed

theorem lowercase_price_is_an_indicator_witness:
  "parse_signal ''AAPL~price < MSFT~PRICE'' = Inr ({''AAPL'', ''MSFT''}, {''PRICE''})"
proof -
  have h: "str_split (CHR '' '') ''AAPL~price < MSFT~PRICE'' =
      [''AAPL~price'', ''<'', ''MSFT~PRICE'']"
    "str_split (CHR ''~'') ''AAPL~price'' = [''AAPL'', ''price'']"
    "str_split (CHR ''~'') ''MSFT~PRICE'' = [''MSFT'', ''PRICE'']"
    "''price'' \<in> {''price'', ''PRICE''}" "''price'' \<noteq> ''PRICE''" "upper ''price'' = ''PRICE''"
    by (simp_all add: upper_def upper_char_def)
  obtain tickers indicators where
    r: "parse_signal ''AAPL~price < MSFT~PRICE'' = Inr (tickers, indicators)"
    and p: "''PRICE'' \<in> indicators"
    using lowercase_price_is_an_indicator[OF h] by blast
  have "parse_signal ''AAPL~price < MSFT~PRICE'' = Inr ({''AAPL'', ''MSFT''}, {''PRICE''})"
    by (auto simp: parse_signal_def parse_code_def upper_def upper_char_def)
  with r p show ?thesis by simp
qed

section \<open>Calendar dates\<close>

lemma date_less_irrefl: "\<not> date_less a a"
  by (simp add: date_less_def)

lemma date_less_trans: "date_less a b \<Longrightarrow> date_less b c \<Longrightarrow> date_less a c"
  by (auto simp: date_less_def)

lemma date_less_asym: "date_less a b \<Longrightarrow> \<not> date_less b a"
  by (auto simp: date_less_def)

lemma date_less_le_trans: "date_less a b \<Longrightarrow> \<not> date_less c b \<Longrightarrow> date_less a c"
  by (auto simp: date_less_def)

lemma date_le_less_trans: "\<not> date_less b a \<Longrightarrow> date_less b c \<Longrightarrow> date_less a c"
  by (auto simp: date_less_def)

lemma date_le_trans: "\<not> date_less b a \<Longrightarrow> \<not> date_less c b \<Longrightarrow> \<not> date_less c a"
  by (auto simp: date_less_def)

lemma date_eqI: "\<not> date_less a b \<Longrightarrow> \<not> date_less b a \<Longrightarrow> a = b"
  for a b :: datetime
  by (cases a; cases b) (auto simp: date_less_def)

lemma days_in_month_pos: "1 \<le> days_in_month y m"
  by (simp add: days_in_month_def)

lemma add_day_next:
  assumes "valid_date c" "valid_date n" "date_less c n"
  shows "\<exists>t. add_day c = Inr t \<and> valid_date t \<and> date_less c t \<and> \<not> date_less n t \<and>
           (\<forall>d. valid_date d \<longrightarrow> date_less c d \<longrightarrow> \<not> date_less d t)"
proof (cases "day c < days_in_month (year c) (month c)")
  case True
  let ?t = "c\<lparr>day := day c + 1\<rparr>"
  have "add_day c = Inr ?t" using True by (simp add: add_day_def)
  moreover have "valid_date ?t" using True assms(1) by (simp add: valid_date_def)
  moreover have "date_less c ?t" by (simp add: date_less_def)
  moreover have "\<not> date_less n ?t" using assms(3) by (auto simp: date_less_def)
  moreover have "\<forall>d. valid_date d \<longrightarrow> date_less c d \<longrightarrow> \<not> date_less d ?t"
    by (auto simp: date_less_def)
  ultimately show ?thesis by blast
next
  case False
  then have last_day: "day c = days_in_month (year c) (month c)"
    using assms(1) by (simp add: valid_date_def)
  show ?thesis
  proof (cases "month c < 12")
    case True
    let ?t = "c\<lparr>month := month c + 1, day := 1\<rparr>"
    have "add_day c = Inr ?t" using True last_day by (simp add: add_day_def)
    moreover have "valid_date ?t"
      using True assms(1) days_in_month_pos[of "year c" "month c + 1"]
      by (simp add: valid_date_def)
    moreover have "date_less c ?t" by (simp add: date_less_def)
    moreover have "\<not> date_less n ?t"
      using assms(2,3) last_day by (cases c, cases n) (auto simp: date_less_def valid_date_def)
    moreover have "\<forall>d. valid_date d \<longrightarrow> date_less c d \<longrightarrow> \<not> date_less d ?t"
      using last_day by (cases c) (auto simp: date_less_def valid_date_def)
    ultimately show ?thesis by blast
  next
    case False
    then have dec: "month c = 12" using assms(1) by (simp add: valid_date_def)
    have yn: "year c < year n"
      using assms(2,3) last_day dec by (cases c, cases n) (auto simp: valid_date_def date_less_def)
    then have y: "year c < 9999" using assms(2) by (simp add: valid_date_def)
    let ?t = "\<lparr>year = year c + 1, month = 1, day = 1\<rparr>"
    have "add_day c = Inr ?t" using dec last_day y by (simp add: add_day_def)
    moreover have "valid_date ?t"
      using y days_in_month_pos[of "year c + 1" 1] by (simp add: valid_date_def)
    moreover have "date_less c ?t" by (simp add: date_less_def)
    moreover have "\<not> date_less n ?t"
      using assms(2) yn by (cases c, cases n) (auto simp: date_less_def valid_date_def)
    moreover have "\<forall>d. valid_date d \<longrightarrow> date_less c d \<longrightarrow> \<not> date_less d ?t"
      using last_day dec by (cases c) (auto simp: date_less_def valid_date_def)
    ultimately show ?thesis by blast
  qed
qed

lemma digit_char_eq: "digit_char a = digit_char b \<Longrightarrow> a mod 10 = b mod 10"
proof -
  have d: "distinct ''0123456789''" by simp
  assume "digit_char a = digit_char b"
  then show ?thesis
    using nth_eq_iff_index_eq[OF d, of "a mod 10" "b mod 10"] by (simp add: digit_char_def)
qed

lemma digits_step:
  fixes a b :: nat
  assumes "a div 10 = b div 10" "a mod 10 = b mod 10"
  shows "a = b"
  using assms by (metis div_mult_mod_eq)

lemma two_digits:
  fixes a b :: nat
  assumes "a < 100" "b < 100" "a div 10 mod 10 = b div 10 mod 10" "a mod 10 = b mod 10"
  shows "a = b"
proof -
  have "a div 10 < 10" "b div 10 < 10" using assms(1,2) by simp_all
  then have "a div 10 = b div 10" using assms(3) by simp
  then show ?thesis using assms(4) by (rule digits_step)
qed

lemma four_digits:
  fixes a b :: nat
  assumes "a < 10000" "b < 10000" "a div 1000 mod 10 = b div 1000 mod 10"
    "a div 100 mod 10 = b div 100 mod 10" "a div 10 mod 10 = b div 10 mod 10" "a mod 10 = b mod 10"
  shows "a = b"
proof -
  have split: "a div 100 = a div 10 div 10" "b div 100 = b div 10 div 10"
    "a div 1000 = a div 10 div 10 div 10" "b div 1000 = b div 10 div 10 div 10"
    by (simp_all add: div_mult2_eq)
  have "a div 10 div 10 div 10 < 10" "b div 10 div 10 div 10 < 10"
    using assms(1,2) by (simp_all add: div_mult2_eq)
  then have "a div 10 div 10 div 10 = b div 10 div 10 div 10"
    using assms(3) by (simp add: split)
  moreover have "a div 10 div 10 mod 10 = b div 10 div 10 mod 10"
    using assms(4) by (simp add: split)
  ultimately have "a div 10 div 10 = b div 10 div 10" by (rule digits_step)
  then have "a div 10 = b div 10" using assms(5) by (rule digits_step)
  then show ?thesis using assms(6) by (rule digits_step)
qed

lemma days_in_month_le: "days_in_month y m \<le> 31"
  by (simp add: days_in_month_def)

lemma strftime_inj:
  assumes "valid_date a" "valid_date b" "strftime a = strftime b"
  shows "a = b"
proof -
  have ya: "year a < 10000" and yb: "year b < 10000"
    and ma: "month a < 100" and mb: "month b < 100"
    using assms(1,2) by (simp_all add: valid_date_def)
  have da: "day a < 100" and db: "day b < 100"
    using assms(1,2) days_in_month_le[of "year a" "month a"] days_in_month_le[of "year b" "month b"]
    by (simp_all add: valid_date_def)
  have chars: "digit_char (year a div 1000) = digit_char (year b div 1000)"
    "digit_char (year a div 100) = digit_char (year b div 100)"
    "digit_char (year a div 10) = digit_char (year b div 10)"
    "digit_char (year a) = digit_char (year b)"
    "digit_char (month a div 10) = digit_char (month b div 10)"
    "digit_char (month a) = digit_char (month b)"
    "digit_char (day a div 10) = digit_char (day b div 10)"
    "digit_char (day a) = digit_char (day b)"
    using assms(3) by (simp_all add: strftime_def)
  have "year a = year b"
    using ya yb chars(1-4)[THEN digit_char_eq] by (rule four_digits)
  moreover have "month a = month b"
    using ma mb chars(5,6)[THEN digit_char_eq] by (rule two_digits)
  moreover have "day a = day b"
    using da db chars(7,8)[THEN digit_char_eq] by (rule two_digits)
  ultimately show ?thesis by simp
qed

lemma digit_value_le: "is_digit c \<Longrightarrow> (of_char c :: nat) - 48 \<le> 9"
  unfolding is_digit_def by linarith

lemma int_of_digits_four:
  assumes "length ys = 4" "list_all is_digit ys"
  shows "int_of_digits ys \<le> 9999"
proof -
  obtain a b c d where ys: "ys = [a, b, c, d]"
    using assms(1) by (auto simp: length_Suc_conv numeral_eq_Suc)
  have "(of_char a :: nat) - 48 \<le> 9" "(of_char b :: nat) - 48 \<le> 9"
    "(of_char c :: nat) - 48 \<le> 9" "(of_char d :: nat) - 48 \<le> 9"
    using assms(2) ys by (simp_all add: digit_value_le)
  then show ?thesis unfolding ys int_of_digits_def by simp
qed

lemma not_digit_space: "is_digit c \<Longrightarrow> c \<noteq> CHR '' ''"
  by (auto simp: is_digit_def)

lemma day_text_value:
  assumes "day_text ds"
  shows "1 \<le> int_of_digits (dropWhile (\<lambda>c. c = CHR '' '') ds)"
proof -
  from assms consider
    (digits) "length ds = 1 \<or> length ds = 2" "list_all is_digit ds" "1 \<le> int_of_digits ds"
    | (padded) "length ds = 2" "hd ds = CHR '' ''" "is_digit (last ds)" "last ds \<noteq> CHR ''0''"
    unfolding day_text_def by blast
  then show ?thesis
  proof cases
    case digits
    then obtain c cs where "ds = c # cs" by (cases ds) auto
    with digits(2) have "dropWhile (\<lambda>c. c = CHR '' '') ds = ds"
      by (simp add: not_digit_space)
    with digits(3) show ?thesis by simp
  next
    case padded
    then obtain x where ds: "ds = [CHR '' '', x]"
      by (cases ds; cases "tl ds") auto
    with padded have x: "is_digit x" "x \<noteq> CHR ''0''" by simp_all
    have "(of_char x :: nat) \<noteq> 48"
    proof
      assume "(of_char x :: nat) = 48"
      then have "(of_char x :: nat) = of_char (CHR ''0'')" by simp
      then have "x = CHR ''0''" by (simp only: of_char_eq_iff)
      with x(2) show False by simp
    qed
    with x(1) have "1 \<le> (of_char x :: nat) - 48" unfolding is_digit_def by linarith
    then show ?thesis using x(1) by (simp add: ds int_of_digits_def not_digit_space)
  qed
qed

lemma strptime_valid:
  assumes "strptime s = Inr dt"
  shows "valid_date dt"
proof -
  from assms obtain ys ms ds where
    parts: "str_split (CHR ''-'') s = [ys, ms, ds]"
    by (auto simp: strptime_def split: list.splits)
  let ?y = "int_of_digits ys" and ?m = "int_of_digits ms"
    and ?d = "int_of_digits (dropWhile (\<lambda>c. c = CHR '' '') ds)"
  from assms parts have c: "length ys = 4" "list_all is_digit ys" "month_text ms" "day_text ds"
    "1 \<le> ?y" "?d \<le> days_in_month ?y ?m" and dt: "dt = \<lparr>year = ?y, month = ?m, day = ?d\<rparr>"
    by (auto simp: strptime_def Let_def split: if_splits)
  have "?y \<le> 9999" using c(1,2) by (rule int_of_digits_four)
  moreover have "1 \<le> ?m" "?m \<le> 12" using c(3) by (simp_all add: month_text_def)
  moreover have "1 \<le> ?d" using c(4) by (rule day_text_value)
  ultimately show ?thesis using c(5,6) by (simp add: valid_date_def dt)
qed

section \<open>Building the price lookup table\<close>

lemma days_from_to_empty: "\<not> date_less c n \<Longrightarrow> days_from_to c n = {}"
  by (auto simp: days_from_to_def dest: date_le_less_trans)

lemma days_from_to_step:
  assumes "valid_date c" "date_less c n" "valid_date t" "date_less c t" "\<not> date_less n t"
    and "\<forall>d. valid_date d \<longrightarrow> date_less c d \<longrightarrow> \<not> date_less d t"
  shows "days_from_to c n = insert c (days_from_to t n)"
proof (intro set_eqI iffI)
  fix d assume "d \<in> days_from_to c n"
  then have d: "valid_date d" "\<not> date_less d c" "date_less d n" by (simp_all add: days_from_to_def)
  show "d \<in> insert c (days_from_to t n)"
  proof (cases "d = c")
    case False
    with d(2) have "date_less c d" using date_eqI by blast
    with d(1) assms(6) have "\<not> date_less d t" by blast
    with d show ?thesis by (simp add: days_from_to_def)
  qed simp
next
  fix d assume "d \<in> insert c (days_from_to t n)"
  then consider "d = c" | "valid_date d" "\<not> date_less d t" "date_less d n"
    by (auto simp: days_from_to_def)
  then show "d \<in> days_from_to c n"
  proof cases
    case 1
    then show ?thesis using assms(1,2) by (simp add: days_from_to_def date_less_irrefl)
  next
    case 2
    from assms(4) 2(2) have "date_less c d" by (rule date_less_le_trans)
    then have "\<not> date_less d c" by (rule date_less_asym)
    with 2 show ?thesis by (simp add: days_from_to_def)
  qed
qed

lemma while_fill_true:
  assumes "fill" "valid_date c" "valid_date n" "close_price pyfloat cld = Inr p"
  shows "while_fill pyfloat fill cld c n lut =
           Inr (\<lambda>k. if k \<in> strftime ` days_from_to c n then Some p else lut k)"
  using assms
proof (induction pyfloat fill cld c n lut rule: while_fill.induct)
  case (1 pyfloat fill cld c n lut)
  show ?case
  proof (cases "date_less c n")
    case False
    then show ?thesis by (subst while_fill.simps) (simp add: days_from_to_empty)
  next
    case True
    obtain t where t: "add_day c = Inr t" "valid_date t" "date_less c t" "\<not> date_less n t"
      "\<forall>d. valid_date d \<longrightarrow> date_less c d \<longrightarrow> \<not> date_less d t"
      using add_day_next[OF "1.prems"(2,3) True] by blast
    have step: "days_from_to c n = insert c (days_from_to t n)"
      using "1.prems"(2) True t(2-5) by (rule days_from_to_step)
    have "while_fill pyfloat fill cld t n (lut(strftime c \<mapsto> p)) =
        Inr (\<lambda>k. if k \<in> strftime ` days_from_to t n then Some p else (lut(strftime c \<mapsto> p)) k)"
      using "1.IH"(1)[OF True "1.prems"(4) "1.prems"(1) t(1) "1.prems"(1) t(2) "1.prems"(3,4)] .
    then have "while_fill pyfloat fill cld c n lut =
        Inr (\<lambda>k. if k \<in> strftime ` days_from_to t n then Some p else (lut(strftime c \<mapsto> p)) k)"
      using True "1.prems"(1,4) t(1) by (subst while_fill.simps) simp
    also have "(\<lambda>k. if k \<in> strftime ` days_from_to t n then Some p else (lut(strftime c \<mapsto> p)) k)
        = (\<lambda>k. if k \<in> strftime ` days_from_to c n then Some p else lut k)"
      by (auto simp: step fun_eq_iff)
    finally show ?thesis .
  qed
qed

lemma while_fill_false:
  assumes "\<not> fill" "close_price pyfloat cld = Inr p"
  shows "while_fill pyfloat fill cld c n lut =
           Inr (if date_less c n then lut(strftime c \<mapsto> p) else lut)"
proof (cases "date_less c n")
  case False
  then show ?thesis by (subst while_fill.simps) simp
next
  case True
  have "while_fill pyfloat fill cld n n (lut(strftime c \<mapsto> p)) = Inr (lut(strftime c \<mapsto> p))"
    by (subst while_fill.simps) (simp add: date_less_irrefl)
  then show ?thesis using True assms by (subst while_fill.simps) simp
qed

lemma while_fill_written:
  assumes "valid_date c" "valid_date n" "close_price pyfloat cld = Inr p"
  shows "while_fill pyfloat fill cld c n lut =
           Inr (\<lambda>k. if k \<in> strftime ` written_days fill c n then Some p else lut k)"
proof (cases fill)
  case True
  then show ?thesis using while_fill_true[OF True assms] by (simp add: written_days_def)
next
  case False
  then show ?thesis using while_fill_false[OF False assms(3)]
    by (auto simp: written_days_def fun_eq_iff)
qed

lemma stored_lineD:
  assumes "stored_line pyfloat line row"
  shows "line_date (str_split (CHR '','') line) = Inr (fst row)"
    and "valid_date (fst row)"
    and "close_price pyfloat (str_split (CHR '','') line) = Inr (snd row)"
    and "strftime (fst row) = str_split (CHR '','') line ! 0"
proof -
  have "0 < length (str_split (CHR '','') line)" using str_split_not_Nil by blast
  then show "line_date (str_split (CHR '','') line) = Inr (fst row)"
    using assms by (simp add: stored_line_def line_date_def item_def Let_def)
  show "valid_date (fst row)"
    using assms strptime_valid by (auto simp: stored_line_def Let_def)
  show "close_price pyfloat (str_split (CHR '','') line) = Inr (snd row)"
    using assms by (simp add: stored_line_def Let_def)
  show "strftime (fst row) = str_split (CHR '','') line ! 0"
    using assms by (simp add: stored_line_def Let_def)
qed

lemma sorted_dates_last:
  assumes "sorted_wrt date_less (map fst (r # rs))" "rs \<noteq> []"
  shows "date_less (fst r) (fst (last (r # rs)))"
  using assms by auto

lemma price_on_first:
  assumes "sorted_wrt date_less (map fst (r1 # r2 # rs))"
    and "\<not> date_less dt (fst r1)" "date_less dt (fst r2)"
  shows "price_on (r1 # r2 # rs) dt = snd r1"
proof -
  have "\<forall>row \<in> set (r2 # rs). date_less dt (fst row)"
  proof
    fix row assume "row \<in> set (r2 # rs)"
    then have "row = r2 \<or> date_less (fst r2) (fst row)" using assms(1) by auto
    then show "date_less dt (fst row)" using assms(3) date_less_trans by blast
  qed
  then have "filter (\<lambda>row. \<not> date_less dt (fst row)) (r2 # rs) = []"
    by (simp only: filter_empty_conv) blast
  then show ?thesis using assms(2) by (simp add: price_on_def)
qed

lemma price_on_later:
  assumes "sorted_wrt date_less (map fst (r1 # r2 # rs))" "\<not> date_less dt (fst r2)"
  shows "price_on (r1 # r2 # rs) dt = price_on (r2 # rs) dt"
  using assms by (simp add: price_on_def)

lemma for_pairs_table:
  assumes "list_all2 (stored_line pyfloat) lines rows" "rows \<noteq> []"
    and "sorted_wrt date_less (map fst rows)"
  shows "\<exists>lut'. for_pairs pyfloat fill lines (lut, b) =
             Inr (lut', if length rows = 1 then b
                        else Some (fst (last rows), str_split (CHR '','') (last lines))) \<and>
           (\<forall>dt \<in> table_days fill rows. lut' (strftime dt) = Some (price_on rows dt)) \<and>
           (\<forall>k. k \<notin> strftime ` table_days fill rows \<longrightarrow> lut' k = lut k)"
  using assms
proof (induction rows arbitrary: lines lut b rule: list.induct)
  case Nil
  then show ?case by simp
next
  case (Cons r1 rs)
  from Cons.prems(1) obtain l1 ls where lines: "lines = l1 # ls"
    and l1: "stored_line pyfloat l1 r1" and ls: "list_all2 (stored_line pyfloat) ls rs"
    by (auto simp: list_all2_Cons2)
  show ?case
  proof (cases rs)
    case Nil
    with ls have "ls = []" by simp
    moreover have "table_days fill [r1] = {}"
      by (auto simp: table_days_def)
    ultimately show ?thesis using Nil lines by simp
  next
    case (Cons r2 rs')
    with ls obtain l2 ls' where ls_eq: "ls = l2 # ls'"
      and l2: "stored_line pyfloat l2 r2" and ls': "list_all2 (stored_line pyfloat) ls' rs'"
      by (auto simp: list_all2_Cons2)
    let ?d1 = "fst r1" and ?d2 = "fst r2" and ?p1 = "snd r1"
    let ?rows = "r1 # r2 # rs'"
    have sorted: "sorted_wrt date_less (map fst ?rows)" using Cons.prems(3) Cons by simp
    have d12: "date_less ?d1 ?d2" using sorted by simp
    have sorted2: "sorted_wrt date_less (map fst (r2 # rs'))" using sorted by simp
    let ?lut1 = "\<lambda>k. if k \<in> strftime ` written_days fill ?d1 ?d2 then Some ?p1 else lut k"
    have w: "while_fill pyfloat fill (str_split (CHR '','') l1) ?d1 ?d2 lut = Inr ?lut1"
      using stored_lineD(2)[OF l1] stored_lineD(2)[OF l2] stored_lineD(3)[OF l1]
      by (rule while_fill_written)
    obtain lut' where
      run: "for_pairs pyfloat fill (l2 # ls') (?lut1, Some (?d2, str_split (CHR '','') l2)) =
        Inr (lut', if length (r2 # rs') = 1 then Some (?d2, str_split (CHR '','') l2)
                   else Some (fst (last (r2 # rs')), str_split (CHR '','') (last (l2 # ls'))))"
      and inside: "\<forall>dt \<in> table_days fill (r2 # rs'). lut' (strftime dt) = Some (price_on (r2 # rs') dt)"
      and outside: "\<forall>k. k \<notin> strftime ` table_days fill (r2 # rs') \<longrightarrow> lut' k = ?lut1 k"
      using Cons.IH[of "l2 # ls'" ?lut1 "Some (?d2, str_split (CHR '','') l2)"] ls l2 ls' sorted2
      unfolding Cons ls_eq by auto
    have lens: "length ls' = length rs'" using ls' by (rule list_all2_lengthD)
    have res: "for_pairs pyfloat fill lines (lut, b) =
        Inr (lut', Some (fst (last ?rows), str_split (CHR '','') (last lines)))"
    proof -
      have "for_pairs pyfloat fill lines (lut, b) =
          for_pairs pyfloat fill (l2 # ls') (?lut1, Some (?d2, str_split (CHR '','') l2))"
        unfolding lines ls_eq
        by (simp add: Let_def stored_lineD(1)[OF l1] stored_lineD(1)[OF l2] w)
      also note run
      finally show ?thesis using lens by (cases rs'; cases ls') (auto simp: lines ls_eq)
    qed
    have first_le_last2: "\<not> date_less (fst (last (r2 # rs'))) ?d2"
    proof (cases "rs' = []")
      case True
      then show ?thesis by (simp add: date_less_irrefl)
    next
      case False
      with sorted2 have "date_less ?d2 (fst (last (r2 # rs')))" by (rule sorted_dates_last)
      then show ?thesis by (rule date_less_asym)
    qed
    have a: "\<forall>dt \<in> table_days fill ?rows. lut' (strftime dt) = Some (price_on ?rows dt)"
    proof
      fix dt assume dt: "dt \<in> table_days fill ?rows"
      then have v: "valid_date dt" and lo: "\<not> date_less dt ?d1"
        and hi: "date_less dt (fst (last (r2 # rs')))"
        and st: "fill \<or> dt \<in> fst ` set ?rows"
        by (simp_all add: table_days_def)
      show "lut' (strftime dt) = Some (price_on ?rows dt)"
      proof (cases "date_less dt ?d2")
        case True
        have "dt \<in> written_days fill ?d1 ?d2"
        proof (cases fill)
          case True
          then show ?thesis using v lo \<open>date_less dt ?d2\<close>
            by (simp add: written_days_def days_from_to_def)
        next
          case False
          with st have "dt \<in> fst ` set ?rows" by simp
          moreover have "\<forall>row \<in> set (r2 # rs'). \<not> date_less (fst row) ?d2"
            using sorted2 by (auto simp: date_less_irrefl dest: date_less_asym)
          ultimately have "dt = ?d1" using True by auto
          with False d12 show ?thesis by (simp add: written_days_def)
        qed
        moreover have "strftime dt \<notin> strftime ` table_days fill (r2 # rs')"
        proof
          assume "strftime dt \<in> strftime ` table_days fill (r2 # rs')"
          then obtain e where e: "e \<in> table_days fill (r2 # rs')" "strftime dt = strftime e"
            by blast
          then have "valid_date e" "\<not> date_less e ?d2" by (simp_all add: table_days_def)
          with v e(2) True show False using strftime_inj by blast
        qed
        ultimately have "lut' (strftime dt) = Some ?p1" using outside by simp
        moreover have "price_on ?rows dt = ?p1" using sorted lo True by (rule price_on_first)
        ultimately show ?thesis by simp
      next
        case False
        have "dt \<in> table_days fill (r2 # rs')"
        proof -
          have "fill \<or> dt \<in> fst ` set (r2 # rs')"
          proof (cases fill)
            case False
            with st have "dt \<in> fst ` set ?rows" by simp
            moreover have "dt \<noteq> ?d1" using \<open>\<not> date_less dt ?d2\<close> d12 by blast
            ultimately show ?thesis by auto
          qed simp
          then show ?thesis using v False hi by (simp add: table_days_def)
        qed
        then have "lut' (strftime dt) = Some (price_on (r2 # rs') dt)" using inside by blast
        moreover have "price_on ?rows dt = price_on (r2 # rs') dt"
          using sorted False by (rule price_on_later)
        ultimately show ?thesis by simp
      qed
    qed
    have b: "\<forall>k. k \<notin> strftime ` table_days fill ?rows \<longrightarrow> lut' k = lut k"
    proof (intro allI impI)
      fix k assume k: "k \<notin> strftime ` table_days fill ?rows"
      have sub2: "table_days fill (r2 # rs') \<subseteq> table_days fill ?rows"
        using d12 by (auto simp: table_days_def dest: date_less_trans)
      have sub1: "written_days fill ?d1 ?d2 \<subseteq> table_days fill ?rows"
        using d12 first_le_last2 stored_lineD(2)[OF l1]
        by (auto simp: written_days_def days_from_to_def table_days_def date_less_irrefl
            dest: date_less_le_trans split: if_splits)
      from k sub2 have "k \<notin> strftime ` table_days fill (r2 # rs')" by blast
      then have "lut' k = ?lut1 k" using outside by blast
      moreover from k sub1 have "k \<notin> strftime ` written_days fill ?d1 ?d2" by blast
      ultimately show "lut' k = lut k" by simp
    qed
    from res a b show ?thesis unfolding Cons by (intro exI[of _ lut']) simp
  qed
qed

lemma price_on_stored:
  assumes "sorted_wrt date_less (map fst rows)" "row \<in> set rows"
  shows "price_on rows (fst row) = snd row"
  using assms
proof (induction rows rule: list.induct)
  case Nil
  then show ?case by simp
next
  case (Cons r1 rs)
  show ?case
  proof (cases rs)
    case Nil
    with Cons.prems(2) show ?thesis by (simp add: price_on_def date_less_irrefl)
  next
    case rs: (Cons r2 rs')
    have sorted: "sorted_wrt date_less (map fst (r1 # r2 # rs'))" using Cons.prems(1) rs by simp
    show ?thesis
    proof (cases "row = r1")
      case True
      have "price_on (r1 # r2 # rs') (fst r1) = snd r1"
        using sorted by (intro price_on_first) (simp_all add: date_less_irrefl)
      then show ?thesis using True rs by simp
    next
      case False
      with Cons.prems(2) have in_rs: "row \<in> set rs" by simp
      have sorted2: "sorted_wrt date_less (map fst rs)" using Cons.prems(1) by simp
      have "row = r2 \<or> date_less (fst r2) (fst row)" using in_rs sorted2 rs by auto
      then have "\<not> date_less (fst row) (fst r2)"
        using date_less_irrefl date_less_asym by blast
      with sorted have "price_on (r1 # r2 # rs') (fst row) = price_on (r2 # rs') (fst row)"
        by (rule price_on_later)
      then show ?thesis using Cons.IH[OF sorted2 in_rs] rs by simp
    qed
  qed
qed

lemma sorted_first_last:
  assumes "sorted_wrt date_less (map fst rows)" "row \<in> set rows"
  shows "\<not> date_less (fst row) (fst (hd rows))" and "\<not> date_less (fst (last rows)) (fst row)"
proof -
  obtain i where i: "i < length rows" "row = rows ! i"
    using assms(2) by (auto simp: in_set_conv_nth)
  then have ne: "rows \<noteq> []" by auto
  have nth: "\<And>a b. a < b \<Longrightarrow> b < length rows \<Longrightarrow> date_less (fst (rows ! a)) (fst (rows ! b))"
    using assms(1) by (simp add: sorted_wrt_iff_nth_less)
  show "\<not> date_less (fst row) (fst (hd rows))"
  proof (cases "i = 0")
    case True
    then show ?thesis using i ne by (simp add: hd_conv_nth date_less_irrefl)
  next
    case False
    then have "date_less (fst (rows ! 0)) (fst (rows ! i))" using i(1) by (intro nth) simp_all
    then show ?thesis using i ne by (simp add: hd_conv_nth date_less_asym)
  qed
  show "\<not> date_less (fst (last rows)) (fst row)"
  proof (cases "i = length rows - 1")
    case True
    then show ?thesis using i ne by (simp add: last_conv_nth date_less_irrefl)
  next
    case False
    then have "date_less (fst (rows ! i)) (fst (rows ! (length rows - 1)))"
      using i(1) by (intro nth) simp_all
    then show ?thesis using i ne by (simp add: last_conv_nth date_less_asym)
  qed
qed

lemma build_price_lut_table:
  assumes "list_all2 (stored_line pyfloat) (readlines_for dm fs ticker) rows"
    and "2 \<le> length rows" and "sorted_wrt date_less (map fst rows)"
  shows "\<exists>table. build_price_lut pyfloat dm fs ticker fill = Inr table \<and>
           dom table = strftime ` insert (fst (last rows)) (table_days fill rows) \<and>
           (\<forall>dt \<in> insert (fst (last rows)) (table_days fill rows).
              table (strftime dt) = Some (price_on rows dt))"
proof -
  let ?lines = "readlines_for dm fs ticker"
  let ?last = "fst (last rows)"
  have ne: "rows \<noteq> []" using assms(2) by auto
  have len: "length ?lines = length rows" using assms(1) by (rule list_all2_lengthD)
  obtain lut' where
    run: "for_pairs pyfloat fill ?lines (Map.empty, None) =
        Inr (lut', Some (?last, str_split (CHR '','') (last ?lines)))"
    and inside: "\<forall>dt \<in> table_days fill rows. lut' (strftime dt) = Some (price_on rows dt)"
    and outside: "\<forall>k. k \<notin> strftime ` table_days fill rows \<longrightarrow> lut' k = None"
    using for_pairs_table[OF assms(1) ne assms(3), of fill Map.empty None] assms(2) by auto
  have "?lines \<noteq> []" using ne len by auto
  then have "last ?lines = ?lines ! (length rows - 1)" "last rows = rows ! (length rows - 1)"
    using ne len by (simp_all add: last_conv_nth)
  moreover have "stored_line pyfloat (?lines ! (length rows - 1)) (rows ! (length rows - 1))"
    using list_all2_nthD2[OF assms(1), of "length rows - 1"] ne by simp
  ultimately have last_line: "stored_line pyfloat (last ?lines) (last rows)" by simp
  let ?table = "lut'(strftime ?last \<mapsto> snd (last rows))"
  have build: "build_price_lut pyfloat dm fs ticker fill = Inr ?table"
  proof -
    have "length ?lines \<noteq> 0" "length ?lines \<noteq> 1" using assms(2) len ne by simp_all
    then show ?thesis
      using run stored_lineD(3)[OF last_line] by (simp add: build_price_lut_def Let_def)
  qed
  have valid_last: "valid_date ?last" using last_line by (rule stored_lineD(2))
  have "dom lut' = strftime ` table_days fill rows"
  proof (intro set_eqI iffI)
    fix k assume "k \<in> dom lut'"
    then show "k \<in> strftime ` table_days fill rows" using outside by (metis domIff)
  next
    fix k assume "k \<in> strftime ` table_days fill rows"
    then show "k \<in> dom lut'" using inside by auto
  qed
  then have dom: "dom ?table = strftime ` insert ?last (table_days fill rows)" by simp
  have vals: "\<forall>dt \<in> insert ?last (table_days fill rows).
      ?table (strftime dt) = Some (price_on rows dt)"
  proof
    fix dt assume dt: "dt \<in> insert ?last (table_days fill rows)"
    show "?table (strftime dt) = Some (price_on rows dt)"
    proof (cases "dt = ?last")
      case True
      have "price_on rows ?last = snd (last rows)"
        using assms(3) ne by (intro price_on_stored) simp_all
      then show ?thesis using True by simp
    next
      case False
      with dt have in_days: "dt \<in> table_days fill rows" by simp
      then have "valid_date dt" "date_less dt ?last" by (simp_all add: table_days_def)
      then have "strftime dt \<noteq> strftime ?last"
        using valid_last strftime_inj date_less_irrefl by metis
      then show ?thesis using inside in_days by simp
    qed
  qed
  from build dom vals show ?thesis by blast
qed

lemma stored_dates_valid:
  "list_all2 (stored_line pyfloat) lines rows \<Longrightarrow> row \<in> set rows \<Longrightarrow> valid_date (fst row)"
  by (induction rule: list_all2_induct) (auto dest: stored_lineD(2))

lemma stored_date_texts:
  "list_all2 (stored_line pyfloat) lines rows \<Longrightarrow>
     map (\<lambda>line. str_split (CHR '','') line ! 0) lines = map (\<lambda>row. strftime (fst row)) rows"
  by (induction rule: list_all2_induct) (auto dest: stored_lineD(4))

lemma table_days_filled:
  assumes "list_all2 (stored_line pyfloat) lines rows" "rows \<noteq> []"
    and "sorted_wrt date_less (map fst rows)"
  shows "insert (fst (last rows)) (table_days True rows) =
           {dt. valid_date dt \<and> \<not> date_less dt (fst (hd rows)) \<and> \<not> date_less (fst (last rows)) dt}"
proof -
  have l: "last rows \<in> set rows" using assms(2) by simp
  have "valid_date (fst (last rows))" using assms(1) l by (rule stored_dates_valid)
  moreover have "\<not> date_less (fst (last rows)) (fst (hd rows))"
    using assms(3) l by (rule sorted_first_last(1))
  ultimately show ?thesis
    by (auto simp: table_days_def date_less_irrefl dest: date_less_asym date_eqI)
qed

lemma table_days_stored:
  assumes "list_all2 (stored_line pyfloat) lines rows" "rows \<noteq> []"
    and "sorted_wrt date_less (map fst rows)"
  shows "insert (fst (last rows)) (table_days False rows) = fst ` set rows"
proof (intro set_eqI iffI)
  fix dt assume "dt \<in> insert (fst (last rows)) (table_days False rows)"
  then show "dt \<in> fst ` set rows" using assms(2) by (auto simp: table_days_def)
next
  fix dt assume "dt \<in> fst ` set rows"
  then obtain row where row: "row \<in> set rows" "dt = fst row" by blast
  have "valid_date dt" using assms(1) row by (simp add: stored_dates_valid)
  moreover have "\<not> date_less dt (fst (hd rows))" "\<not> date_less (fst (last rows)) dt"
    using sorted_first_last[OF assms(3) row(1)] row(2) by simp_all
  ultimately show "dt \<in> insert (fst (last rows)) (table_days False rows)"
    using row by (auto simp: table_days_def dest: date_eqI)
qed

text \<open>
  Claim C4.  The file has at least two lines; each stands for a date and a price, and
  the dates are strictly ascending.  With \<^verbatim>\<open>fill=True\<close> the table has exactly the keys of
  the calendar days from the first date to the last, and each day maps to the close of
  the most recent row dated on or before it (for a stored date, that row's own close).
  With \<^verbatim>\<open>fill=False\<close> the keys are exactly the stored date texts, each mapping to the
  close of its row.
\<close>

theorem build_price_lut_multi_row:
  assumes "list_all2 (stored_line pyfloat) (readlines_for dm fs ticker) rows"
    and "2 \<le> length rows" and "sorted_wrt date_less (map fst rows)"
  shows "\<exists>filled stored.
           build_price_lut pyfloat dm fs ticker True = Inr filled \<and>
           build_price_lut pyfloat dm fs ticker False = Inr stored \<and>
           dom filled = strftime ` {dt. valid_date dt \<and> \<not> date_less dt (fst (hd rows)) \<and>
                                        \<not> date_less (fst (last rows)) dt} \<and>
           (\<forall>dt. valid_date dt \<and> \<not> date_less dt (fst (hd rows)) \<and>
                 \<not> date_less (fst (last rows)) dt \<longrightarrow>
                 filled (strftime dt) = Some (price_on rows dt)) \<and>
           (\<forall>row \<in> set rows. price_on rows (fst row) = snd row) \<and>
           dom stored = (\<lambda>line. str_split (CHR '','') line ! 0) ` set (readlines_for dm fs ticker) \<and>
           (\<forall>row \<in> set rows. stored (strftime (fst row)) = Some (snd row))"
proof -
  have ne: "rows \<noteq> []" using assms(2) by auto
  obtain filled where filled: "build_price_lut pyfloat dm fs ticker True = Inr filled"
    "dom filled = strftime ` insert (fst (last rows)) (table_days True rows)"
    "\<forall>dt \<in> insert (fst (last rows)) (table_days True rows).
       filled (strftime dt) = Some (price_on rows dt)"
    using build_price_lut_table[OF assms, of True] by blast
  obtain stored where stored: "build_price_lut pyfloat dm fs ticker False = Inr stored"
    "dom stored = strftime ` insert (fst (last rows)) (table_days False rows)"
    "\<forall>dt \<in> insert (fst (last rows)) (table_days False rows).
       stored (strftime dt) = Some (price_on rows dt)"
    using build_price_lut_table[OF assms, of False] by blast
  note days = table_days_filled[OF assms(1) ne assms(3)] table_days_stored[OF assms(1) ne assms(3)]
  have own: "\<forall>row \<in> set rows. price_on rows (fst row) = snd row"
    using price_on_stored[OF assms(3)] by blast
  have "strftime ` fst ` set rows =
      (\<lambda>line. str_split (CHR '','') line ! 0) ` set (readlines_for dm fs ticker)"
    using stored_date_texts[OF assms(1), THEN arg_cong, of set] by (simp add: image_image)
  then have "dom stored =
      (\<lambda>line. str_split (CHR '','') line ! 0) ` set (readlines_for dm fs ticker)"
    using stored(2) days(2) by simp
  moreover have "\<forall>row \<in> set rows. stored (strftime (fst row)) = Some (snd row)"
    using stored(3) own unfolding days(2) by simp
  moreover have "dom filled = strftime ` {dt. valid_date dt \<and> \<not> date_less dt (fst (hd rows)) \<and>
      \<not> date_less (fst (last rows)) dt}"
    using filled(2) unfolding days(1) .
  moreover have "\<forall>dt. valid_date dt \<and> \<not> date_less dt (fst (hd rows)) \<and>
      \<not> date_less (fst (last rows)) dt \<longrightarrow> filled (strftime dt) = Some (price_on rows dt)"
    using filled(3) unfolding days(1) by blast
  ultimately show ?thesis using filled(1) stored(1) own by blast
qed

text \<open>
  Claim C3.  A file of one line never yields a table: the single-line branch reads the
  loop index \<^verbatim>\<open>i\<close> before it is bound, for \<^verbatim>\<open>fill\<close> true and false alike.
\<close>

lemma single_line_unbound:
  "length (readlines_for dm fs ticker) = 1 \<Longrightarrow>
     build_price_lut pyfloat dm fs ticker fill = Inl UnboundLocalError"
  by (auto simp: build_price_lut_def Let_def)

text \<open>Claim C3, at the stored series of the one row of 2024-03-01 with close 42: the
  call raises \<^verbatim>\<open>UnboundLocalError\<close> where the claim has it return a table of one entry.\<close>

theorem single_row_raises:
  "readlines_for example_dm march_fs ''aapl'' = [''2024-03-01,40,43,39,42,1000''] \<and>
   build_price_lut pyfloat example_dm march_fs ''aapl'' fill = Inl UnboundLocalError"
proof -
  have "readlines_for example_dm march_fs ''aapl'' = [''2024-03-01,40,43,39,42,1000'']"
    by (simp add: readlines_for_def example_filename march_fs_def file_lines_def strip_def
        isspace_def LF_def CR_def)
  then show ?thesis by (simp add: single_line_unbound)
qed

lemma gap_lines:
  "readlines_for example_dm gap_fs ''aapl'' =
     [''2024-01-05,9,11,8,10,100'', ''2024-01-08,19,21,18,20,200'']"
  by (simp add: readlines_for_def example_filename gap_fs_def gap_text_def file_lines_def
      strip_def isspace_def LF_def CR_def)

lemma gap_stored:
  "list_all2 (stored_line gap_float) (readlines_for example_dm gap_fs ''aapl'') gap_series"
  by (simp add: gap_lines gap_series_def stored_line_def Let_def strptime_def strftime_def
      month_text_def day_text_def is_digit_def int_of_digits_def digit_char_def
      days_in_month_def is_leap_def close_price_def item_def gap_float_def)

text \<open>The example of the specification: rows of 2024-01-05 (close 10) and 2024-01-08
  (close 20) give four entries with \<^verbatim>\<open>fill=True\<close> and two with \<^verbatim>\<open>fill=False\<close>.\<close>

lemma gap_days_between:
  fixes y m d :: nat
  assumes "\<not> date_less \<lparr>year = y, month = m, day = d\<rparr> \<lparr>year = 2024, month = 1, day = 5\<rparr>"
    and "\<not> date_less \<lparr>year = 2024, month = 1, day = 8\<rparr> \<lparr>year = y, month = m, day = d\<rparr>"
    and "1 \<le> m"
  shows "y = 2024 \<and> m = 1 \<and> (d = 5 \<or> d = 6 \<or> d = 7 \<or> d = 8)"
  using assms unfolding date_less_def by simp arith

lemma gap_days:
  "{dt. valid_date dt \<and> \<not> date_less dt \<lparr>year = 2024, month = 1, day = 5\<rparr> \<and>
        \<not> date_less \<lparr>year = 2024, month = 1, day = 8\<rparr> dt} =
   {\<lparr>year = 2024, month = 1, day = 5\<rparr>, \<lparr>year = 2024, month = 1, day = 6\<rparr>,
    \<lparr>year = 2024, month = 1, day = 7\<rparr>, \<lparr>year = 2024, month = 1, day = 8\<rparr>}"
proof (intro set_eqI iffI)
  fix dt :: datetime
  assume a: "dt \<in> {dt. valid_date dt \<and> \<not> date_less dt \<lparr>year = 2024, month = 1, day = 5\<rparr> \<and>
        \<not> date_less \<lparr>year = 2024, month = 1, day = 8\<rparr> dt}"
  obtain y m d where dt: "dt = \<lparr>year = y, month = m, day = d\<rparr>" by (cases dt) simp
  from a have "1 \<le> m" by (simp add: dt valid_date_def)
  with a have "y = 2024 \<and> m = 1 \<and> (d = 5 \<or> d = 6 \<or> d = 7 \<or> d = 8)"
    unfolding dt by (intro gap_days_between) simp_all
  then show "dt \<in> {\<lparr>year = 2024, month = 1, day = 5\<rparr>, \<lparr>year = 2024, month = 1, day = 6\<rparr>,
    \<lparr>year = 2024, month = 1, day = 7\<rparr>, \<lparr>year = 2024, month = 1, day = 8\<rparr>}"
    unfolding dt by blast
next
  fix dt :: datetime
  assume "dt \<in> {\<lparr>year = 2024, month = 1, day = 5\<rparr>, \<lparr>year = 2024, month = 1, day = 6\<rparr>,
    \<lparr>year = 2024, month = 1, day = 7\<rparr>, \<lparr>year = 2024, month = 1, day = 8\<rparr>}"
  then consider "dt = \<lparr>year = 2024, month = 1, day = 5\<rparr>" | "dt = \<lparr>year = 2024, month = 1, day = 6\<rparr>"
    | "dt = \<lparr>year = 2024, month = 1, day = 7\<rparr>" | "dt = \<lparr>year = 2024, month = 1, day = 8\<rparr>"
    by blast
  then show "dt \<in> {dt. valid_date dt \<and> \<not> date_less dt \<lparr>year = 2024, month = 1, day = 5\<rparr> \<and>
        \<not> date_less \<lparr>year = 2024, month = 1, day = 8\<rparr> dt}"
    by cases (simp_all add: valid_date_def date_less_def days_in_month_def)
qed

theorem build_price_lut_multi_row_witness:
  "build_price_lut gap_float example_dm gap_fs ''aapl'' True =
     Inr [''2024-01-05'' \<mapsto> 10, ''2024-01-06'' \<mapsto> 10, ''2024-01-07'' \<mapsto> 10,
          ''2024-01-08'' \<mapsto> 20] \<and>
   build_price_lut gap_float example_dm gap_fs ''aapl'' False =
     Inr [''2024-01-05'' \<mapsto> 10, ''2024-01-08'' \<mapsto> 20]"
proof -
  let ?d5 = "\<lparr>year = 2024, month = 1, day = 5\<rparr>" and ?d6 = "\<lparr>year = 2024, month = 1, day = 6\<rparr>"
    and ?d7 = "\<lparr>year = 2024, month = 1, day = 7\<rparr>" and ?d8 = "\<lparr>year = 2024, month = 1, day = 8\<rparr>"
  have len: "2 \<le> length gap_series" by (simp add: gap_series_def)
  have sorted: "sorted_wrt date_less (map fst gap_series)"
    by (simp add: gap_series_def date_less_def)
  have ends: "fst (hd gap_series) = ?d5" "fst (last gap_series) = ?d8"
    by (simp_all add: gap_series_def)
  from build_price_lut_multi_row[OF gap_stored len sorted]
  obtain filled stored where
    f: "build_price_lut gap_float example_dm gap_fs ''aapl'' True = Inr filled"
    and s: "build_price_lut gap_float example_dm gap_fs ''aapl'' False = Inr stored"
    and fdom0: "dom filled = strftime ` {dt. valid_date dt \<and>
        \<not> date_less dt (fst (hd gap_series)) \<and> \<not> date_less (fst (last gap_series)) dt}"
    and fval0: "\<forall>dt. valid_date dt \<and> \<not> date_less dt (fst (hd gap_series)) \<and>
        \<not> date_less (fst (last gap_series)) dt \<longrightarrow>
        filled (strftime dt) = Some (price_on gap_series dt)"
    and "\<forall>row \<in> set gap_series. price_on gap_series (fst row) = snd row"
    and sdom: "dom stored = (\<lambda>line. str_split (CHR '','') line ! 0) `
        set (readlines_for example_dm gap_fs ''aapl'')"
    and sval: "\<forall>row \<in> set gap_series. stored (strftime (fst row)) = Some (snd row)"
    by (elim exE conjE)
  note fdom = fdom0[unfolded ends] and fval = fval0[unfolded ends]
  have texts: "strftime ?d5 = ''2024-01-05''" "strftime ?d6 = ''2024-01-06''"
    "strftime ?d7 = ''2024-01-07''" "strftime ?d8 = ''2024-01-08''"
    by (simp_all add: strftime_def digit_char_def)
  have prices: "price_on gap_series ?d5 = 10" "price_on gap_series ?d6 = 10"
    "price_on gap_series ?d7 = 10" "price_on gap_series ?d8 = 20"
    by (simp_all add: price_on_def gap_series_def date_less_def)
  have within: "valid_date ?d5 \<and> \<not> date_less ?d5 ?d5 \<and> \<not> date_less ?d8 ?d5"
    "valid_date ?d6 \<and> \<not> date_less ?d6 ?d5 \<and> \<not> date_less ?d8 ?d6"
    "valid_date ?d7 \<and> \<not> date_less ?d7 ?d5 \<and> \<not> date_less ?d8 ?d7"
    "valid_date ?d8 \<and> \<not> date_less ?d8 ?d5 \<and> \<not> date_less ?d8 ?d8"
    by (simp_all add: valid_date_def date_less_def days_in_month_def)
  have fvals: "filled ''2024-01-05'' = Some 10" "filled ''2024-01-06'' = Some 10"
    "filled ''2024-01-07'' = Some 10" "filled ''2024-01-08'' = Some 20"
    using fval[rule_format, OF within(1)] fval[rule_format, OF within(2)]
      fval[rule_format, OF within(3)] fval[rule_format, OF within(4)]
    by (simp_all only: texts prices)
  have fdom': "dom filled = {''2024-01-05'', ''2024-01-06'', ''2024-01-07'', ''2024-01-08''}"
    unfolding fdom gap_days by (simp only: image_insert image_empty texts)
  have "filled = [''2024-01-05'' \<mapsto> 10, ''2024-01-06'' \<mapsto> 10, ''2024-01-07'' \<mapsto> 10,
          ''2024-01-08'' \<mapsto> 20]"
  proof
    fix k
    show "filled k = [''2024-01-05'' \<mapsto> 10, ''2024-01-06'' \<mapsto> 10, ''2024-01-07'' \<mapsto> 10,
          ''2024-01-08'' \<mapsto> 20] k"
    proof (cases "k \<in> dom filled")
      case True
      then show ?thesis using fvals unfolding fdom' by auto
    next
      case False
      then have "filled k = None" by (simp add: domIff)
      moreover from False have "k \<noteq> ''2024-01-05''" "k \<noteq> ''2024-01-06''"
        "k \<noteq> ''2024-01-07''" "k \<noteq> ''2024-01-08''"
        unfolding fdom' by auto
      ultimately show ?thesis by simp
    qed
  qed
  moreover have sdom': "dom stored = {''2024-01-05'', ''2024-01-08''}"
    unfolding sdom gap_lines by simp
  have svals: "stored ''2024-01-05'' = Some 10" "stored ''2024-01-08'' = Some 20"
    using sval texts by (auto simp: gap_series_def)
  have "stored = [''2024-01-05'' \<mapsto> 10, ''2024-01-08'' \<mapsto> 20]"
  proof
    fix k
    show "stored k = [''2024-01-05'' \<mapsto> 10, ''2024-01-08'' \<mapsto> 20] k"
    proof (cases "k \<in> dom stored")
      case True
      then show ?thesis using svals unfolding sdom' by auto
    next
      case False
      then have "stored k = None" by (simp add: domIff)
      moreover from False have "k \<noteq> ''2024-01-05''" "k \<noteq> ''2024-01-08''"
        unfolding sdom' by auto
      ultimately show ?thesis by simp
    qed
  qed
  ultimately show ?thesis using f s by simp
qed

end
